theory Spec2Isabelle
  imports Complex_Main "HOL-Library.Word"
begin

section \<open>The storage manager of the client daemon\<close>

text \<open>
  The development follows \<^verbatim>\<open>storage_manager.go\<close> (package \<^verbatim>\<open>storage\<close>) and
  \<^verbatim>\<open>client/daemon/peer/peertask_file.go\<close>.

  Conventions.
  \<^item> Go's \<^verbatim>\<open>int64\<close> and \<^verbatim>\<open>int32\<close> are \<open>64 word\<close> and \<open>32 word\<close>; \<open>+\<close> and \<open>-\<close> wrap,
    comparisons of signed values are \<open>word_sless\<close> and \<open>word_sle\<close>.
  \<^item> Instants and durations are nanoseconds as \<open>int\<close>; every operation that reads
    \<^verbatim>\<open>time.Now()\<close> takes the instant \<open>now\<close> as an argument (one reading per call).
  \<^item> A \<^verbatim>\<open>*localTaskStore\<close> is an address; the objects live in the field \<open>stores\<close> of the
    manager state, so that the task map and the index share them as the Go pointers do.
  \<^item> \<^verbatim>\<open>sync.Map\<close> is an association list with distinct keys; the order of the list
    stands for the (unspecified) order of \<^verbatim>\<open>Range\<close>.
\<close>

subsection \<open>Data\<close>

type_synonym addr = nat
type_synonym int64 = "64 word"
type_synonym int32 = "32 word"

record PeerTaskMetadata =
  PeerID :: string
  TaskID :: string

text \<open>
  \<^verbatim>\<open>config.StoreStrategy\<close> is a string type whose two constants are declared in package
  \<^verbatim>\<open>config\<close>; they label distinct cases of a \<^verbatim>\<open>switch\<close>, so they are distinct values.
\<close>

datatype StoreStrategy =
  SimpleLocalTaskStoreStrategy | AdvanceLocalTaskStoreStrategy | OtherStoreStrategy string

text \<open>
  \<^verbatim>\<open>localTaskStore\<close> embeds \<^verbatim>\<open>persistentMetadata\<close>; both are declared outside the files at
  hand, so the record lists the fields that the manager reads or writes. The fields
  \<open>TaskID_pm\<close> and \<open>PeerID_pm\<close> are \<^verbatim>\<open>persistentMetadata.TaskID\<close> and \<^verbatim>\<open>.PeerID\<close>.
  \<^verbatim>\<open>TaskMeta\<close>, \<^verbatim>\<open>Pieces\<close>, the callback, the open metadata file and the logger are never
  read by the manager and are left out.
\<close>

record localTaskStore =
  StoreStrategy :: StoreStrategy
  TaskID_pm :: string
  ContentLength :: int64
  TotalPieces :: int32
  PieceMd5Sign :: string
  PeerID_pm :: string
  Done :: bool
  DataFilePath :: string
  dataDir :: string
  metadataFilePath :: string
  expireTime :: int
  lastAccess :: int
  reclaimMarked :: bool
  invalid :: bool

record ReusePeerTask =
  PeerTaskMetadata_rp :: PeerTaskMetadata
  ContentLength_rp :: int64
  TotalPieces_rp :: int32

record storageManager =
  keepAliveAccess :: int
  storeStrategy :: StoreStrategy
  DataPath :: string
  TaskExpireTime :: int
  DiskGCThreshold :: int64
  DiskGCThresholdPercent :: real
  tasks :: "(PeerTaskMetadata \<times> addr) list"
  markedReclaimTasks :: "PeerTaskMetadata list"
  dataPathDev :: nat
  gcInterval :: int
  indexTask2PeerTask :: "string \<rightharpoonup> addr list"
  stores :: "addr \<Rightarrow> localTaskStore"
  nextAddr :: addr

datatype error = ErrTaskNotFound | ErrExist | ErrNotExist | ErrOS string | ErrLoadTasks "error list"

subsection \<open>The task map\<close>

definition tasks_Load :: "(PeerTaskMetadata \<times> addr) list \<Rightarrow> PeerTaskMetadata \<Rightarrow> addr option" where
  "tasks_Load m k = map_of m k"

definition tasks_Delete :: "(PeerTaskMetadata \<times> addr) list \<Rightarrow> PeerTaskMetadata \<Rightarrow> (PeerTaskMetadata \<times> addr) list" where
  "tasks_Delete m k = filter (\<lambda>kv. fst kv \<noteq> k) m"

definition tasks_Store :: "(PeerTaskMetadata \<times> addr) list \<Rightarrow> PeerTaskMetadata \<Rightarrow> addr \<Rightarrow> (PeerTaskMetadata \<times> addr) list" where
  "tasks_Store m k a =
     (if k \<in> fst ` set m then map (\<lambda>kv. if fst kv = k then (k, a) else kv) m else m @ [(k, a)])"

text \<open>\<^verbatim>\<open>clientutil.KeepAlive.Keep\<close>: records that the manager was used now.\<close>

definition Keep :: "storageManager \<Rightarrow> int \<Rightarrow> storageManager" where
  "Keep s now = s\<lparr>keepAliveAccess := now\<rparr>"

definition LoadTask :: "storageManager \<Rightarrow> int \<Rightarrow> PeerTaskMetadata \<Rightarrow> storageManager \<times> addr option" where
  "LoadTask s now meta = (Keep s now, tasks_Load (tasks s) meta)"

text \<open>
  Modelled from the spec: \<^verbatim>\<open>localTaskStore.touch\<close> is not among the files at hand; the
  store's last-access time is set to the current instant.
\<close>

definition touch :: "int \<Rightarrow> localTaskStore \<Rightarrow> localTaskStore" where
  "touch now t = t\<lparr>lastAccess := now\<rparr>"

subsection \<open>Operations addressed by a key\<close>

text \<open>
  The manager forwards each operation to the store registered under the key. The
  store's own methods (\<^verbatim>\<open>localTaskStore.WritePiece\<close> and so on) are outside the files at
  hand: they are the fields of \<open>TaskStorageDriver\<close>, the Go interface of the same name,
  each taking the store and the request and returning the store and Go's result tuple
  (\<open>None\<close> is \<^verbatim>\<open>nil\<close>). Readers, closers and piece packets are opaque. The requests of
  \<^verbatim>\<open>WritePiece\<close>, \<^verbatim>\<open>ReadPiece\<close>, \<^verbatim>\<open>ReadAllPieces\<close> and \<^verbatim>\<open>UpdateTask\<close> are declared elsewhere;
  the manager reads their \<^verbatim>\<open>PeerID\<close> and \<^verbatim>\<open>TaskID\<close> only, the rest is the extension \<open>'x\<close>.
\<close>

typedecl Reader
typedecl Closer
typedecl ReadCloser
typedecl PiecePacket

record StoreRequest = PeerTaskMetadata +
  Destination_sr :: string
  MetadataOnly :: bool
  TotalPieces_sr :: int32

record PieceTaskRequest =
  TaskId :: string
  SrcPid :: string
  DstPid :: string
  StartNum :: "32 word"
  Limit :: "32 word"

record 'x TaskStorageDriver =
  drv_WritePiece :: "localTaskStore \<Rightarrow> 'x PeerTaskMetadata_scheme \<Rightarrow> localTaskStore \<times> int64 \<times> error option"
  drv_ReadPiece :: "localTaskStore \<Rightarrow> 'x PeerTaskMetadata_scheme \<Rightarrow> localTaskStore \<times> Reader option \<times> Closer option \<times> error option"
  drv_ReadAllPieces :: "localTaskStore \<Rightarrow> 'x PeerTaskMetadata_scheme \<Rightarrow> localTaskStore \<times> ReadCloser option \<times> error option"
  drv_GetPieces :: "localTaskStore \<Rightarrow> PieceTaskRequest \<Rightarrow> localTaskStore \<times> PiecePacket option \<times> error option"
  drv_UpdateTask :: "localTaskStore \<Rightarrow> 'x PeerTaskMetadata_scheme \<Rightarrow> localTaskStore \<times> error option"
  drv_Store :: "localTaskStore \<Rightarrow> StoreRequest \<Rightarrow> localTaskStore \<times> error option"
  drv_ValidateDigest :: "localTaskStore \<Rightarrow> PeerTaskMetadata \<Rightarrow> localTaskStore \<times> error option"
  drv_IsInvalid :: "localTaskStore \<Rightarrow> PeerTaskMetadata \<Rightarrow> localTaskStore \<times> bool \<times> error option"

text \<open>The key that an operation builds from the \<^verbatim>\<open>PeerID\<close> and \<^verbatim>\<open>TaskID\<close> of its request.\<close>

definition keyOf :: "'a PeerTaskMetadata_scheme \<Rightarrow> PeerTaskMetadata" where
  "keyOf req = \<lparr>PeerID = PeerID req, TaskID = TaskID req\<rparr>"

text \<open>Calling a method of the store at address \<open>a\<close>: the object is updated in place.\<close>

definition onStore :: "storageManager \<Rightarrow> addr \<Rightarrow> (localTaskStore \<Rightarrow> localTaskStore \<times> 'r) \<Rightarrow> storageManager \<times> 'r" where
  "onStore s a m = (case m (stores s a) of (t', r) \<Rightarrow> (s\<lparr>stores := (stores s)(a := t')\<rparr>, r))"

definition WritePiece :: "'x TaskStorageDriver \<Rightarrow> storageManager \<Rightarrow> int \<Rightarrow> 'x PeerTaskMetadata_scheme \<Rightarrow> storageManager \<times> int64 \<times> error option" where
  "WritePiece drv s now req =
     (case LoadTask s now (keyOf req) of
        (s1, None) \<Rightarrow> (s1, 0, Some ErrTaskNotFound)
      | (s1, Some a) \<Rightarrow> onStore s1 a (\<lambda>t. drv_WritePiece drv t req))"

definition ReadPiece :: "'x TaskStorageDriver \<Rightarrow> storageManager \<Rightarrow> int \<Rightarrow> 'x PeerTaskMetadata_scheme \<Rightarrow> storageManager \<times> Reader option \<times> Closer option \<times> error option" where
  "ReadPiece drv s now req =
     (case LoadTask s now (keyOf req) of
        (s1, None) \<Rightarrow> (s1, None, None, Some ErrTaskNotFound)
      | (s1, Some a) \<Rightarrow> onStore s1 a (\<lambda>t. drv_ReadPiece drv t req))"

definition ReadAllPieces :: "'x TaskStorageDriver \<Rightarrow> storageManager \<Rightarrow> int \<Rightarrow> 'x PeerTaskMetadata_scheme \<Rightarrow> storageManager \<times> ReadCloser option \<times> error option" where
  "ReadAllPieces drv s now req =
     (case LoadTask s now (keyOf req) of
        (s1, None) \<Rightarrow> (s1, None, Some ErrTaskNotFound)
      | (s1, Some a) \<Rightarrow> onStore s1 a (\<lambda>t. drv_ReadAllPieces drv t req))"

definition Store :: "'x TaskStorageDriver \<Rightarrow> storageManager \<Rightarrow> int \<Rightarrow> StoreRequest \<Rightarrow> storageManager \<times> error option" where
  "Store drv s now req =
     (case LoadTask s now (keyOf req) of
        (s1, None) \<Rightarrow> (s1, Some ErrTaskNotFound)
      | (s1, Some a) \<Rightarrow> onStore s1 a (\<lambda>t. drv_Store drv t req))"

definition GetPieces :: "'x TaskStorageDriver \<Rightarrow> storageManager \<Rightarrow> int \<Rightarrow> PieceTaskRequest \<Rightarrow> storageManager \<times> PiecePacket option \<times> error option" where
  "GetPieces drv s now req =
     (case LoadTask s now \<lparr>PeerID = DstPid req, TaskID = TaskId req\<rparr> of
        (s1, None) \<Rightarrow> (s1, None, Some ErrTaskNotFound)
      | (s1, Some a) \<Rightarrow> onStore s1 a (\<lambda>t. drv_GetPieces drv t req))"

definition UpdateTask :: "'x TaskStorageDriver \<Rightarrow> storageManager \<Rightarrow> int \<Rightarrow> 'x PeerTaskMetadata_scheme \<Rightarrow> storageManager \<times> error option" where
  "UpdateTask drv s now req =
     (case LoadTask s now (keyOf req) of
        (s1, None) \<Rightarrow> (s1, Some ErrTaskNotFound)
      | (s1, Some a) \<Rightarrow> onStore s1 a (\<lambda>t. drv_UpdateTask drv t req))"

definition ValidateDigest :: "'x TaskStorageDriver \<Rightarrow> storageManager \<Rightarrow> int \<Rightarrow> PeerTaskMetadata \<Rightarrow> storageManager \<times> error option" where
  "ValidateDigest drv s now req =
     (case LoadTask s now (keyOf req) of
        (s1, None) \<Rightarrow> (s1, Some ErrTaskNotFound)
      | (s1, Some a) \<Rightarrow> onStore s1 a (\<lambda>t. drv_ValidateDigest drv t req))"

definition IsInvalid :: "'x TaskStorageDriver \<Rightarrow> storageManager \<Rightarrow> int \<Rightarrow> PeerTaskMetadata \<Rightarrow> storageManager \<times> bool \<times> error option" where
  "IsInvalid drv s now req =
     (case LoadTask s now (keyOf req) of
        (s1, None) \<Rightarrow> (s1, False, Some ErrTaskNotFound)
      | (s1, Some a) \<Rightarrow> onStore s1 a (\<lambda>t. drv_IsInvalid drv t req))"


subsection \<open>The index and the fast path\<close>

text \<open>
  \<^verbatim>\<open>FindCompletedTask\<close>: the loop over the stores indexed under the task. A store that is
  not invalid is touched before the reclaim mark and \<^verbatim>\<open>Done\<close> are looked at.
\<close>

fun findCompleted :: "int \<Rightarrow> string \<Rightarrow> (addr \<Rightarrow> localTaskStore) \<Rightarrow> addr list \<Rightarrow> (addr \<Rightarrow> localTaskStore) \<times> ReusePeerTask option" where
  "findCompleted now taskID h [] = (h, None)"
| "findCompleted now taskID h (a # ts) =
     (if invalid (h a) then findCompleted now taskID h ts
      else
        let h1 = h(a := touch now (h a)) in
        if reclaimMarked (h1 a) then findCompleted now taskID h1 ts
        else if \<not> Done (h1 a) then findCompleted now taskID h1 ts
        else (h1, Some \<lparr>PeerTaskMetadata_rp = \<lparr>PeerID = PeerID_pm (h1 a), TaskID = taskID\<rparr>,
                         ContentLength_rp = ContentLength (h1 a),
                         TotalPieces_rp = TotalPieces (h1 a)\<rparr>))"

definition FindCompletedTask :: "storageManager \<Rightarrow> int \<Rightarrow> string \<Rightarrow> storageManager \<times> ReusePeerTask option" where
  "FindCompletedTask s now taskID =
     (case indexTask2PeerTask s taskID of
        None \<Rightarrow> (s, None)
      | Some ts \<Rightarrow> (case findCompleted now taskID (stores s) ts of (h, r) \<Rightarrow> (s\<lparr>stores := h\<rparr>, r)))"

text \<open>
  \<^verbatim>\<open>cleanIndex\<close>: the stores of the task whose \<^verbatim>\<open>PeerID\<close> is the given one are dropped
  from the slice; the (possibly empty) remainder is stored back under the task.
\<close>

definition cleanIndex :: "storageManager \<Rightarrow> string \<Rightarrow> string \<Rightarrow> storageManager" where
  "cleanIndex s taskID peerID =
     (case indexTask2PeerTask s taskID of
        None \<Rightarrow> s
      | Some ts \<Rightarrow>
          s\<lparr>indexTask2PeerTask :=
               (indexTask2PeerTask s)(taskID \<mapsto> filter (\<lambda>a. PeerID_pm (stores s a) \<noteq> peerID) ts)\<rparr>)"

subsection \<open>Garbage collection\<close>

text \<open>
  Modelled from the spec: \<^verbatim>\<open>localTaskStore.CanReclaim\<close> is not among the files at hand.
  The spec marks a store whose last access lies further back than its expire time (a
  store being written is touched by its writer, so its last access is recent).
\<close>

definition CanReclaim :: "int \<Rightarrow> localTaskStore \<Rightarrow> bool" where
  "CanReclaim now t = (expireTime t < now - lastAccess t)"

text \<open>
  Modelled from the spec: \<^verbatim>\<open>localTaskStore.MarkReclaim\<close> is not among the files at hand;
  it marks the storage which will be reclaimed.
\<close>

definition MarkReclaim :: "localTaskStore \<Rightarrow> localTaskStore" where
  "MarkReclaim t = t\<lparr>reclaimMarked := True\<rparr>"

text \<open>
  \<^verbatim>\<open>localTaskStore.Reclaim\<close> deletes files and may fail; it is a parameter \<open>reclaim\<close> of the
  passes, giving the error (if any) for a store. Each call is recorded with the key, the
  address and the manager state in which it runs.
\<close>

type_synonym reclaimCall = "PeerTaskMetadata \<times> addr \<times> storageManager"

text \<open>
  \<^verbatim>\<open>disk.Usage\<close> of the data path, \<open>None\<close> when it fails. \<^verbatim>\<open>float64\<close> is idealised as
  \<open>real\<close>: comparisons are exact, the rounding of the product is not modelled; the
  conversion to \<^verbatim>\<open>int64\<close> truncates towards zero.
\<close>

record UsageStat =
  UsedPercent :: real
  Total :: nat

definition int64_of_float :: "real \<Rightarrow> int64" where
  "int64_of_float x = word_of_int (if 0 \<le> x then \<lfloor>x\<rfloor> else \<lceil>x\<rceil>)"

definition diskUsageExceed :: "storageManager \<Rightarrow> UsageStat option \<Rightarrow> bool \<times> int64" where
  "diskUsageExceed s usage =
     (if DiskGCThresholdPercent s \<le> 0 then (False, 0)
      else case usage of
        None \<Rightarrow> (False, 0)
      | Some u \<Rightarrow>
          if UsedPercent u < DiskGCThresholdPercent s then (False, 0)
          else (True, int64_of_float ((UsedPercent u - DiskGCThresholdPercent s) * real (Total u))))"

text \<open>First loop of \<^verbatim>\<open>TryGC\<close>: the range over the task map.\<close>

fun markExpired :: "int \<Rightarrow> (PeerTaskMetadata \<times> addr) list \<Rightarrow>
    (addr \<Rightarrow> localTaskStore) \<times> PeerTaskMetadata list \<times> int64 \<Rightarrow>
    (addr \<Rightarrow> localTaskStore) \<times> PeerTaskMetadata list \<times> int64" where
  "markExpired now [] acc = acc"
| "markExpired now ((key, a) # kvs) (h, markedTasks, totalNotMarkedSize) =
     (if CanReclaim now (h a)
      then markExpired now kvs (h(a := MarkReclaim (h a)), markedTasks @ [key], totalNotMarkedSize)
      else markExpired now kvs (h, markedTasks, totalNotMarkedSize + ContentLength (h a)))"

text \<open>Second range: the stores the quota branch may mark.\<close>

definition gcCandidates :: "storageManager \<Rightarrow> int \<Rightarrow> (addr \<Rightarrow> localTaskStore) \<Rightarrow> addr list" where
  "gcCandidates s now h =
     map snd (filter (\<lambda>(key, a).
        \<not> reclaimMarked (h a) \<and> \<not> (\<not> Done (h a) \<and> now - lastAccess (h a) < gcInterval s)) (tasks s))"

text \<open>The marking loop over the sorted stores, leaving at the \<^verbatim>\<open>break\<close>.\<close>

fun markOldest :: "addr list \<Rightarrow> (addr \<Rightarrow> localTaskStore) \<times> PeerTaskMetadata list \<times> int64 \<Rightarrow>
    (addr \<Rightarrow> localTaskStore) \<times> PeerTaskMetadata list \<times> int64" where
  "markOldest [] acc = acc"
| "markOldest (a # ts) (h, markedTasks, bytesExceed) =
     (let h1 = h(a := MarkReclaim (h a));
          markedTasks1 = markedTasks @ [\<lparr>PeerID = PeerID_pm (h1 a), TaskID = TaskID_pm (h1 a)\<rparr>];
          bytesExceed1 = bytesExceed - ContentLength (h1 a)
      in if bytesExceed1 \<le>s 0 then (h1, markedTasks1, bytesExceed1)
         else markOldest ts (h1, markedTasks1, bytesExceed1))"

definition markQuota :: "storageManager \<Rightarrow> int \<Rightarrow> UsageStat option \<Rightarrow>
    (addr \<Rightarrow> localTaskStore) \<times> PeerTaskMetadata list \<times> int64 \<Rightarrow>
    (addr \<Rightarrow> localTaskStore) \<times> PeerTaskMetadata list" where
  "markQuota s now usage acc =
     (case acc of (h, markedTasks, totalNotMarkedSize) \<Rightarrow>
        let quotaBytesExceed = totalNotMarkedSize - DiskGCThreshold s;
            quotaExceed = (0 <s DiskGCThreshold s \<and> 0 <s quotaBytesExceed);
            (usageExceed, usageBytesExceed) = diskUsageExceed s usage
        in if quotaExceed \<or> usageExceed
           then
             let bytesExceed = (if usageBytesExceed <s quotaBytesExceed then quotaBytesExceed
                                else usageBytesExceed);
                 sorted = sort_key (\<lambda>a. lastAccess (h a)) (gcCandidates s now h)
             in (case markOldest sorted (h, markedTasks, bytesExceed) of (h1, markedTasks1, _) \<Rightarrow>
                   (h1, markedTasks1))
           else (h, markedTasks))"

text \<open>Last loop of \<^verbatim>\<open>TryGC\<close>: the keys marked by the previous pass.\<close>

fun reclaimMarkedTasks :: "(localTaskStore \<Rightarrow> error option) \<Rightarrow> PeerTaskMetadata list \<Rightarrow>
    storageManager \<times> PeerTaskMetadata list \<times> reclaimCall list \<Rightarrow>
    storageManager \<times> PeerTaskMetadata list \<times> reclaimCall list" where
  "reclaimMarkedTasks reclaim [] acc = acc"
| "reclaimMarkedTasks reclaim (key # keys) (s, markedTasks, calls) =
     (case tasks_Load (tasks s) key of
        None \<Rightarrow> reclaimMarkedTasks reclaim keys (s, markedTasks, calls)
      | Some a \<Rightarrow>
          let task = stores s a;
              s1 = s\<lparr>tasks := tasks_Delete (tasks s) key\<rparr>;
              s2 = cleanIndex s1 (TaskID_pm task) (PeerID_pm task);
              calls1 = calls @ [(key, a, s2)]
          in (case reclaim task of
                Some err \<Rightarrow> reclaimMarkedTasks reclaim keys (s2, markedTasks, calls1)
              | None \<Rightarrow> reclaimMarkedTasks reclaim keys (s2, remove1 key markedTasks, calls1)))"

definition TryGC :: "(localTaskStore \<Rightarrow> error option) \<Rightarrow> UsageStat option \<Rightarrow> storageManager \<Rightarrow> int \<Rightarrow>
    storageManager \<times> reclaimCall list \<times> bool \<times> error option" where
  "TryGC reclaim usage s now =
     (case markQuota s now usage (markExpired now (tasks s) (stores s, [], 0)) of
        (h, markedTasks) \<Rightarrow>
          (case reclaimMarkedTasks reclaim (markedReclaimTasks s) (s\<lparr>stores := h\<rparr>, markedTasks, []) of
             (s1, markedTasks1, calls) \<Rightarrow>
               (s1\<lparr>markedReclaimTasks := markedTasks1\<rparr>, calls, True, None)))"

text \<open>\<^verbatim>\<open>forceGC\<close>: the range deletes every key it visits.\<close>

fun forceGCRange :: "(localTaskStore \<Rightarrow> error option) \<Rightarrow> (PeerTaskMetadata \<times> addr) list \<Rightarrow>
    storageManager \<times> reclaimCall list \<Rightarrow> storageManager \<times> reclaimCall list" where
  "forceGCRange reclaim [] acc = acc"
| "forceGCRange reclaim ((meta, a) # kvs) (s, calls) =
     (let s1 = s\<lparr>tasks := tasks_Delete (tasks s) meta\<rparr>;
          s2 = cleanIndex s1 (TaskID meta) (PeerID meta);
          s3 = s2\<lparr>stores := (stores s2)(a := MarkReclaim (stores s2 a))\<rparr>
      in forceGCRange reclaim kvs (s3, calls @ [(meta, a, s3)]))"

definition forceGC :: "(localTaskStore \<Rightarrow> error option) \<Rightarrow> storageManager \<Rightarrow>
    storageManager \<times> reclaimCall list \<times> bool \<times> error option" where
  "forceGC reclaim s = (case forceGCRange reclaim (tasks s) (s, []) of (s1, calls) \<Rightarrow> (s1, calls, True, None))"

definition CleanUp :: "(localTaskStore \<Rightarrow> error option) \<Rightarrow> storageManager \<Rightarrow> storageManager \<times> reclaimCall list" where
  "CleanUp reclaim s = (case forceGC reclaim s of (s1, calls, _, _) \<Rightarrow> (s1, calls))"


subsection \<open>Creating and registering a store\<close>

record RegisterTaskRequest = PeerTaskMetadata +
  Destination :: string
  ContentLength_req :: int64
  TotalPieces_req :: int32
  PieceMd5Sign_req :: string

text \<open>
  The operating system as \<^verbatim>\<open>CreateTask\<close> meets it: the outcome of each call is given by
  the environment \<open>OS\<close> (\<open>None\<close> is a \<^verbatim>\<open>nil\<close> error; \<^verbatim>\<open>os.Stat\<close> yields the device of the
  directory). \<^verbatim>\<open>path.Clean\<close> of the Go library is a field as well. The calls that are made
  are returned as a list, in program order.
\<close>

record OS =
  path_Clean :: "string \<Rightarrow> string"
  os_MkdirAll :: "string \<Rightarrow> error option"
  os_OpenFile :: "string \<Rightarrow> error option"
  os_Stat :: "string \<Rightarrow> error + nat"
  os_Link :: "string \<Rightarrow> string \<Rightarrow> error option"
  os_Symlink :: "string \<Rightarrow> string \<Rightarrow> error option"

datatype oscall =
  MkdirAll string | OpenFile string | Stat string | Link string string | Symlink string string

definition os_IsExist :: "error \<Rightarrow> bool" where
  "os_IsExist err = (err = ErrExist)"

fun joinSlash :: "string list \<Rightarrow> string" where
  "joinSlash [] = []"
| "joinSlash [e] = e"
| "joinSlash (e # es) = e @ ''/'' @ joinSlash es"

text \<open>\<^verbatim>\<open>path.Join\<close>: the elements from the first non-empty one on, separated by slashes, cleaned.\<close>

definition path_Join :: "OS \<Rightarrow> string list \<Rightarrow> string" where
  "path_Join os elem =
     (if concat elem = [] then []
      else path_Clean os (joinSlash (dropWhile (\<lambda>e. e = []) elem)))"

text \<open>\<^verbatim>\<open>path.Split\<close>: the path up to and with its last slash, and the rest.\<close>

definition path_Split :: "string \<Rightarrow> string \<times> string" where
  "path_Split p =
     (rev (dropWhile (\<lambda>c. c \<noteq> CHR ''/'') (rev p)), rev (takeWhile (\<lambda>c. c \<noteq> CHR ''/'') (rev p)))"

text \<open>
  Modelled from the spec: the constants \<^verbatim>\<open>taskData\<close> and \<^verbatim>\<open>taskMetadata\<close> are declared
  outside the files at hand; the on-disk layout of the spec names the two files
  \<^verbatim>\<open>data\<close> and \<^verbatim>\<open>metadata\<close>.
\<close>

definition taskData :: string where
  "taskData = ''data''"

definition taskMetadata :: string where
  "taskMetadata = ''metadata''"

text \<open>The \<^verbatim>\<open>switch\<close> of \<^verbatim>\<open>CreateTask\<close> on the strategy of the new store.\<close>

definition createDataFile :: "OS \<Rightarrow> storageManager \<Rightarrow> RegisterTaskRequest \<Rightarrow> localTaskStore \<Rightarrow> string \<Rightarrow>
    (error + localTaskStore) \<times> oscall list" where
  "createDataFile os s req t data =
     (case StoreStrategy t of
        SimpleLocalTaskStoreStrategy \<Rightarrow>
          (let t1 = t\<lparr>DataFilePath := data\<rparr> in
           case os_OpenFile os (DataFilePath t1) of
             Some err \<Rightarrow> (Inl err, [OpenFile (DataFilePath t1)])
           | None \<Rightarrow> (Inr t1, [OpenFile (DataFilePath t1)]))
      | AdvanceLocalTaskStoreStrategy \<Rightarrow>
          (case path_Split (Destination req) of (dir, file) \<Rightarrow>
             (case os_Stat os dir of
                Inl err \<Rightarrow> (Inl err, [Stat dir])
              | Inr dev \<Rightarrow>
                  (let t1 = t\<lparr>DataFilePath :=
                              path_Join os [dir, ''.'' @ file @ ''.dfget.cache.'' @ PeerID req]\<rparr>;
                       cache = DataFilePath t1
                   in case os_OpenFile os cache of
                        Some err \<Rightarrow> (Inl err, [Stat dir, OpenFile cache])
                      | None \<Rightarrow>
                          if dev = dataPathDev s
                          then (case os_Link os cache data of
                                  Some err \<Rightarrow>
                                    (case os_Symlink os cache data of
                                       Some err1 \<Rightarrow>
                                         (Inl err1, [Stat dir, OpenFile cache, Link cache data, Symlink cache data])
                                     | None \<Rightarrow>
                                         (Inr t1, [Stat dir, OpenFile cache, Link cache data, Symlink cache data]))
                                | None \<Rightarrow> (Inr t1, [Stat dir, OpenFile cache, Link cache data]))
                          else (case os_Symlink os cache data of
                                  Some err \<Rightarrow> (Inl err, [Stat dir, OpenFile cache, Symlink cache data])
                                | None \<Rightarrow> (Inr t1, [Stat dir, OpenFile cache, Symlink cache data])))))
      | OtherStoreStrategy x \<Rightarrow> (Inr t, []))"

text \<open>Appending a store to the slice indexed under a task.\<close>

definition indexAppend :: "(string \<rightharpoonup> addr list) \<Rightarrow> string \<Rightarrow> addr \<Rightarrow> (string \<rightharpoonup> addr list)" where
  "indexAppend ix taskID a =
     (case ix taskID of Some ts \<Rightarrow> ix(taskID \<mapsto> ts @ [a]) | None \<Rightarrow> ix(taskID \<mapsto> [a]))"

text \<open>
  The end of \<^verbatim>\<open>CreateTask\<close>: the new object gets the next free address, and is stored in
  the task map and appended to the index.
\<close>

definition registerStore :: "storageManager \<Rightarrow> PeerTaskMetadata \<Rightarrow> localTaskStore \<Rightarrow> storageManager \<times> addr" where
  "registerStore s key t =
     (let a = nextAddr s
      in (s\<lparr>stores := (stores s)(a := t), nextAddr := Suc a,
            tasks := tasks_Store (tasks s) key a,
            indexTask2PeerTask := indexAppend (indexTask2PeerTask s) (TaskID key) a\<rparr>, a))"

text \<open>\<^verbatim>\<open>CreateTask\<close> from \<^verbatim>\<open>t.touch()\<close> up to the end of the \<^verbatim>\<open>switch\<close>.\<close>

definition createTaskFiles :: "OS \<Rightarrow> storageManager \<Rightarrow> int \<Rightarrow> RegisterTaskRequest \<Rightarrow> localTaskStore \<Rightarrow>
    (error + localTaskStore) \<times> oscall list" where
  "createTaskFiles os s now req t =
     (let t1 = touch now t in
      case os_OpenFile os (metadataFilePath t1) of
        Some err \<Rightarrow> (Inl err, [OpenFile (metadataFilePath t1)])
      | None \<Rightarrow>
          (let t2 = (if Destination req = [] then t1\<lparr>StoreStrategy := SimpleLocalTaskStoreStrategy\<rparr>
                     else t1);
               data = path_Join os [dataDir t2, taskData]
           in case createDataFile os s req t2 data of
                (r, calls) \<Rightarrow> (r, OpenFile (metadataFilePath t1) # calls)))"

text \<open>The struct literal at the head of \<^verbatim>\<open>CreateTask\<close>; the zero values are written out.\<close>

definition newLocalTaskStore :: "OS \<Rightarrow> storageManager \<Rightarrow> RegisterTaskRequest \<Rightarrow> localTaskStore" where
  "newLocalTaskStore os s req =
     (let dataDir = path_Join os [DataPath s, TaskID req, PeerID req]
      in \<lparr>StoreStrategy = storeStrategy s,
          TaskID_pm = TaskID req,
          ContentLength = ContentLength_req req,
          TotalPieces = TotalPieces_req req,
          PieceMd5Sign = PieceMd5Sign_req req,
          PeerID_pm = PeerID req,
          Done = False,
          DataFilePath = [],
          dataDir = dataDir,
          metadataFilePath = path_Join os [dataDir, taskMetadata],
          expireTime = TaskExpireTime s,
          lastAccess = 0,
          reclaimMarked = False,
          invalid = False\<rparr>)"

text \<open>\<^verbatim>\<open>os.MkdirAll\<close> with the test \<^verbatim>\<open>err != nil && !os.IsExist(err)\<close>.\<close>

definition mkdirFailure :: "OS \<Rightarrow> string \<Rightarrow> error option" where
  "mkdirFailure os dir =
     (case os_MkdirAll os dir of
        Some err \<Rightarrow> if \<not> os_IsExist err then Some err else None
      | None \<Rightarrow> None)"

definition CreateTask :: "OS \<Rightarrow> storageManager \<Rightarrow> int \<Rightarrow> RegisterTaskRequest \<Rightarrow>
    storageManager \<times> (error + addr) \<times> oscall list" where
  "CreateTask os s now req =
     (let s0 = Keep s now;
          t = newLocalTaskStore os s0 req
      in case mkdirFailure os (dataDir t) of
           Some err \<Rightarrow> (s0, Inl err, [MkdirAll (dataDir t)])
         | None \<Rightarrow>
             (case createTaskFiles os s0 now req t of
                (Inl err, calls) \<Rightarrow> (s0, Inl err, MkdirAll (dataDir t) # calls)
              | (Inr t1, calls) \<Rightarrow>
                  (case registerStore s0 \<lparr>PeerID = PeerID req, TaskID = TaskID req\<rparr> t1 of
                     (s1, a) \<Rightarrow> (s1, Inr a, MkdirAll (dataDir t) # calls))))"

text \<open>
  \<^verbatim>\<open>RegisterTask\<close>: the second look-up is the one made under the lock.
\<close>

definition RegisterTask :: "OS \<Rightarrow> storageManager \<Rightarrow> int \<Rightarrow> RegisterTaskRequest \<Rightarrow>
    storageManager \<times> (error + addr) \<times> oscall list" where
  "RegisterTask os s now req =
     (case LoadTask s now \<lparr>PeerID = PeerID req, TaskID = TaskID req\<rparr> of
        (s1, Some ts) \<Rightarrow> (s1, Inr ts, [])
      | (s1, None) \<Rightarrow>
          (case LoadTask s1 now \<lparr>PeerID = PeerID req, TaskID = TaskID req\<rparr> of
             (s2, Some ts) \<Rightarrow> (s2, Inr ts, [])
           | (s2, None) \<Rightarrow> CreateTask os s2 now req))"

text \<open>
  A call whose failure \<^verbatim>\<open>CreateTask\<close> returns to its caller: \<^verbatim>\<open>MkdirAll\<close> with an error
  other than that the directory exists, \<^verbatim>\<open>OpenFile\<close>, \<^verbatim>\<open>Stat\<close> and \<^verbatim>\<open>Symlink\<close>. A failed
  \<^verbatim>\<open>Link\<close> is followed by \<^verbatim>\<open>Symlink\<close>.
\<close>

fun failedCall :: "OS \<Rightarrow> oscall \<Rightarrow> bool" where
  "failedCall os (MkdirAll p) = (mkdirFailure os p \<noteq> None)"
| "failedCall os (OpenFile p) = (os_OpenFile os p \<noteq> None)"
| "failedCall os (Stat p) = isl (os_Stat os p)"
| "failedCall os (Link p q) = False"
| "failedCall os (Symlink p q) = (os_Symlink os p q \<noteq> None)"

subsection \<open>Notions used in the statements\<close>

text \<open>A store that the fast path may hand out: not invalid, not marked for reclaim, done.\<close>

definition reusable :: "localTaskStore \<Rightarrow> bool" where
  "reusable t = (\<not> invalid t \<and> \<not> reclaimMarked t \<and> Done t)"

text \<open>The \<^verbatim>\<open>ReusePeerTask\<close> built from a store.\<close>

definition reuseOf :: "string \<Rightarrow> localTaskStore \<Rightarrow> ReusePeerTask" where
  "reuseOf taskID t = \<lparr>PeerTaskMetadata_rp = \<lparr>PeerID = PeerID_pm t, TaskID = taskID\<rparr>,
      ContentLength_rp = ContentLength t, TotalPieces_rp = TotalPieces t\<rparr>"

text \<open>Two memories that differ in last-access times at most.\<close>

definition sameButAccess :: "(addr \<Rightarrow> localTaskStore) \<Rightarrow> (addr \<Rightarrow> localTaskStore) \<Rightarrow> bool" where
  "sameButAccess h h0 = (\<forall>a. (h a)\<lparr>lastAccess := 0\<rparr> = (h0 a)\<lparr>lastAccess := 0\<rparr>)"

subsection \<open>Concrete states\<close>

definition exStore :: "string \<Rightarrow> string \<Rightarrow> int64 \<Rightarrow> int \<Rightarrow> bool \<Rightarrow> bool \<Rightarrow> localTaskStore" where
  "exStore tid pid len access done marked =
     \<lparr>StoreStrategy = SimpleLocalTaskStoreStrategy, TaskID_pm = tid, ContentLength = len,
      TotalPieces = 1, PieceMd5Sign = [], PeerID_pm = pid, Done = done,
      DataFilePath = [], dataDir = [], metadataFilePath = [], expireTime = 100,
      lastAccess = access, reclaimMarked = marked, invalid = False\<rparr>"

definition exKey :: "string \<Rightarrow> string \<Rightarrow> PeerTaskMetadata" where
  "exKey pid tid = \<lparr>PeerID = pid, TaskID = tid\<rparr>"

definition exEmpty :: storageManager where
  "exEmpty = \<lparr>keepAliveAccess = 0, storeStrategy = AdvanceLocalTaskStoreStrategy, DataPath = ''/d'',
     TaskExpireTime = 100, DiskGCThreshold = 0, DiskGCThresholdPercent = 0, tasks = [],
     markedReclaimTasks = [], dataPathDev = 1, gcInterval = 60, indexTask2PeerTask = Map.empty,
     stores = (\<lambda>a. exStore [] [] 0 0 False False), nextAddr = 0\<rparr>"

definition exDriver :: "unit TaskStorageDriver" where
  "exDriver = \<lparr>drv_WritePiece = (\<lambda>t r. (t, 0, None)),
     drv_ReadPiece = (\<lambda>t r. (t, None, None, None)),
     drv_ReadAllPieces = (\<lambda>t r. (t, None, None)),
     drv_GetPieces = (\<lambda>t r. (t, None, None)),
     drv_UpdateTask = (\<lambda>t r. (t, None)),
     drv_Store = (\<lambda>t r. (t, None)),
     drv_ValidateDigest = (\<lambda>t r. (t, None)),
     drv_IsInvalid = (\<lambda>t r. (t, invalid t, None))\<rparr>"

text \<open>
  Three stores of one task: the first done but marked for reclaim, the second not
  done, the third done and not marked.
\<close>

definition exIndexed :: storageManager where
  "exIndexed = exEmpty\<lparr>
     tasks := [(exKey ''p0'' ''t'', 10), (exKey ''p1'' ''t'', 11), (exKey ''p2'' ''t'', 12)],
     indexTask2PeerTask := [''t'' \<mapsto> [10, 11, 12]],
     stores := (\<lambda>a. exStore [] [] 0 0 False False)
       (10 := exStore ''t'' ''p0'' 10 0 True True,
        11 := exStore ''t'' ''p1'' 20 5 False False,
        12 := exStore ''t'' ''p2'' 30 7 True False),
     nextAddr := 13\<rparr>"

text \<open>The calls that only the advance strategy makes.\<close>

definition advanceCall :: "oscall \<Rightarrow> bool" where
  "advanceCall c = (case c of Stat p \<Rightarrow> True | Link p q \<Rightarrow> True | Symlink p q \<Rightarrow> True | _ \<Rightarrow> False)"

text \<open>An operating system in which every call succeeds, and one that refuses \<^verbatim>\<open>MkdirAll\<close>.\<close>

definition exOS :: OS where
  "exOS = \<lparr>path_Clean = (\<lambda>p. p), os_MkdirAll = (\<lambda>p. None), os_OpenFile = (\<lambda>p. None),
     os_Stat = (\<lambda>p. Inr 1), os_Link = (\<lambda>p q. None), os_Symlink = (\<lambda>p q. None)\<rparr>"

definition exFailOS :: OS where
  "exFailOS = exOS\<lparr>os_MkdirAll := (\<lambda>p. Some (ErrOS ''mkdir''))\<rparr>"

definition exReq :: "string \<Rightarrow> RegisterTaskRequest" where
  "exReq dest = \<lparr>PeerID = ''p'', TaskID = ''t'', Destination = dest, ContentLength_req = 42,
     TotalPieces_req = 3, PieceMd5Sign_req = []\<rparr>"

definition exReqP0 :: RegisterTaskRequest where
  "exReqP0 = \<lparr>PeerID = ''p0'', TaskID = ''t'', Destination = [], ContentLength_req = 10,
     TotalPieces_req = 1, PieceMd5Sign_req = []\<rparr>"

subsection \<open>Notions for the garbage collector\<close>

text \<open>
  The key under which a store is registered carries the store's own identifiers, as
  \<^verbatim>\<open>CreateTask\<close> registers it.
\<close>

definition consistent :: "storageManager \<Rightarrow> bool" where
  "consistent s =
     (\<forall>(key, a) \<in> set (tasks s).
        PeerID_pm (stores s a) = PeerID key \<and> TaskID_pm (stores s a) = TaskID key)"

text \<open>The addresses in the task map have been handed out: the next new store gets another one.\<close>

definition allocated :: "storageManager \<Rightarrow> bool" where
  "allocated s = (\<forall>(key, a) \<in> set (tasks s). a < nextAddr s)"

text \<open>The stores in the slice indexed under a task.\<close>

definition indexed :: "storageManager \<Rightarrow> string \<Rightarrow> addr set" where
  "indexed s taskID = (case indexTask2PeerTask s taskID of None \<Rightarrow> {} | Some ts \<Rightarrow> set ts)"

text \<open>
  In the state \<open>st\<close> the key is not in the task map and the store is not in the slice
  indexed under the key's task.
\<close>

definition unlinked :: "PeerTaskMetadata \<Rightarrow> addr \<Rightarrow> storageManager \<Rightarrow> bool" where
  "unlinked key a st = (tasks_Load (tasks st) key = None \<and> a \<notin> indexed st (TaskID key))"

text \<open>Every recorded call of \<^verbatim>\<open>Reclaim\<close> ran in a state, and is followed by a final state \<open>s'\<close>,
  in which its store is unlinked.\<close>

definition reclaimedUnlinked :: "reclaimCall list \<Rightarrow> storageManager \<Rightarrow> bool" where
  "reclaimedUnlinked calls s' = (\<forall>(key, a, st) \<in> set calls. unlinked key a st \<and> unlinked key a s')"

text \<open>Two memories that differ in reclaim marks at most.\<close>

definition sameButMarks :: "(addr \<Rightarrow> localTaskStore) \<Rightarrow> (addr \<Rightarrow> localTaskStore) \<Rightarrow> bool" where
  "sameButMarks h h0 = (\<forall>a. (h a)\<lparr>reclaimMarked := False\<rparr> = (h0 a)\<lparr>reclaimMarked := False\<rparr>)"

text \<open>The task map and the index of \<open>s'\<close> hold nothing that those of \<open>s\<close> do not hold.\<close>

definition shrunk :: "storageManager \<Rightarrow> storageManager \<Rightarrow> bool" where
  "shrunk s s' = (set (tasks s') \<subseteq> set (tasks s) \<and> (\<forall>tid. indexed s' tid \<subseteq> indexed s tid))"

text \<open>The memory after the stores at the given addresses have been marked.\<close>

definition markAll :: "addr list \<Rightarrow> (addr \<Rightarrow> localTaskStore) \<Rightarrow> (addr \<Rightarrow> localTaskStore)" where
  "markAll as h = (\<lambda>a. if a \<in> set as then MarkReclaim (h a) else h a)"

text \<open>The entries of the task map whose store has expired at the instant of the pass.\<close>

definition expired :: "storageManager \<Rightarrow> int \<Rightarrow> (PeerTaskMetadata \<times> addr) list" where
  "expired s now = filter (\<lambda>(key, a). CanReclaim now (stores s a)) (tasks s)"

text \<open>The total size of the stores that have not expired.\<close>

definition totalNotMarkedSize :: "storageManager \<Rightarrow> int \<Rightarrow> int64" where
  "totalNotMarkedSize s now =
     sum_list (map (\<lambda>(key, a). ContentLength (stores s a))
       (filter (\<lambda>(key, a). \<not> CanReclaim now (stores s a)) (tasks s)))"

definition quotaBytesExceed :: "storageManager \<Rightarrow> int \<Rightarrow> int64" where
  "quotaBytesExceed s now = totalNotMarkedSize s now - DiskGCThreshold s"

text \<open>The condition under which the pass enters the quota branch.\<close>

definition gcTriggered :: "storageManager \<Rightarrow> int \<Rightarrow> UsageStat option \<Rightarrow> bool" where
  "gcTriggered s now usage =
     ((0 <s DiskGCThreshold s \<and> 0 <s quotaBytesExceed s now) \<or> fst (diskUsageExceed s usage))"

definition bytesToReclaim :: "storageManager \<Rightarrow> int \<Rightarrow> UsageStat option \<Rightarrow> int64" where
  "bytesToReclaim s now usage =
     (if snd (diskUsageExceed s usage) <s quotaBytesExceed s now then quotaBytesExceed s now
      else snd (diskUsageExceed s usage))"

text \<open>
  The stores left for the quota branch, in the words of the spec: not marked, not
  expired, and not both unfinished and accessed within the interval of the collector.
\<close>

definition quotaCandidates :: "storageManager \<Rightarrow> int \<Rightarrow> addr list" where
  "quotaCandidates s now =
     map snd (filter (\<lambda>(key, a).
        \<not> reclaimMarked (stores s a) \<and> \<not> CanReclaim now (stores s a)
        \<and> \<not> (\<not> Done (stores s a) \<and> now - lastAccess (stores s a) < gcInterval s)) (tasks s))"

definition sortedCandidates :: "storageManager \<Rightarrow> int \<Rightarrow> addr list" where
  "sortedCandidates s now = sort_key (\<lambda>a. lastAccess (stores s a)) (quotaCandidates s now)"

text \<open>
  Marking in order, subtracting each length from the bytes still to reclaim, and
  stopping as soon as nothing remains.
\<close>

fun markUntil :: "(addr \<Rightarrow> int64) \<Rightarrow> int64 \<Rightarrow> addr list \<Rightarrow> addr list" where
  "markUntil len bytes [] = []"
| "markUntil len bytes (a # as) =
     a # (if bytes - len a \<le>s 0 then [] else markUntil len (bytes - len a) as)"

definition quotaVictims :: "storageManager \<Rightarrow> int \<Rightarrow> UsageStat option \<Rightarrow> addr list" where
  "quotaVictims s now usage =
     (if gcTriggered s now usage
      then markUntil (\<lambda>a. ContentLength (stores s a)) (bytesToReclaim s now usage) (sortedCandidates s now)
      else [])"




text \<open>A \<^verbatim>\<open>Reclaim\<close> that never fails.\<close>

definition exReclaim :: "localTaskStore \<Rightarrow> error option" where
  "exReclaim t = None"

text \<open>The keys and stores for which \<^verbatim>\<open>Reclaim\<close> was called.\<close>

definition reclaimedStores :: "reclaimCall list \<Rightarrow> (PeerTaskMetadata \<times> addr) list" where
  "reclaimedStores calls = map (\<lambda>(key, a, st). (key, a)) calls"

text \<open>
  One finished store, last used at 0, with an expire time of 100. A first pass at 1000
  marks it; \<^verbatim>\<open>FindCompletedTask\<close> touches it at 1001; a second pass runs at 1002.
\<close>

definition exOne :: storageManager where
  "exOne = exEmpty\<lparr>
     tasks := [(exKey ''p'' ''t'', 10)],
     indexTask2PeerTask := [''t'' \<mapsto> [10]],
     stores := (\<lambda>a. exStore [] [] 0 0 False False)(10 := exStore ''t'' ''p'' 30 0 True False),
     nextAddr := 11\<rparr>"

definition exPass1 :: storageManager where
  "exPass1 = fst (TryGC exReclaim None exOne 1000)"

definition exTouched :: storageManager where
  "exTouched = fst (FindCompletedTask exPass1 1001 ''t'')"

definition exPass2 :: "storageManager \<times> reclaimCall list \<times> bool \<times> error option" where
  "exPass2 = TryGC exReclaim None exTouched 1002"

text \<open>
  A store registered under the key of task \<open>t\<close> and peer \<open>p\<close> that carries the
  identifiers \<open>t0\<close> and \<open>p0\<close>, as \<^verbatim>\<open>ReloadPersistentTask\<close> registers the directory
  \<^verbatim>\<open>t/p\<close> when its metadata file names that task and peer; the key has been marked by
  a pass.
\<close>

definition exMismatch :: storageManager where
  "exMismatch = exEmpty\<lparr>
     tasks := [(exKey ''p'' ''t'', 10)],
     indexTask2PeerTask := [''t'' \<mapsto> [10]],
     stores := (\<lambda>a. exStore [] [] 0 0 False False)(10 := exStore ''t0'' ''p0'' 30 2000 True True),
     markedReclaimTasks := [exKey ''p'' ''t''],
     nextAddr := 11\<rparr>"

section \<open>The file task of the peer-task manager\<close>

text \<open>
  \<^verbatim>\<open>client/daemon/peer/peertask_file.go\<close>. The conductor, the broker, contexts and spans
  are objects of other files: the conductor is a value of a type \<open>'c\<close>, a context a value of
  a type \<open>'x\<close>; what the file task reads from its conductor is the record
  \<open>conductorView\<close>, taken as it is when the goroutine reads it.
\<close>

text \<open>\<^verbatim>\<open>base.Code\<close>: the two codes named in the file, and the others by number.\<close>

datatype Code = Code_Success | Code_ClientError | Code_Other nat

record UrlMeta =
  Digest :: string
  Tag :: string
  Range :: string
  Filter :: string
  Header :: "(string \<times> string) list"

record PeerTaskRequest =
  Url :: string
  UrlMeta :: UrlMeta
  PeerId :: string
  IsMigrating :: bool

record FileTaskRequest = PeerTaskRequest +
  Output :: string
  Limit_ft :: real
  DisableBackSource :: bool
  Pattern :: string
  Callsystem :: string

record ProgressState =
  Success :: bool
  Code :: Code
  Msg :: string

text \<open>\<^verbatim>\<open>DoneCallback\<close>, the closure that closes \<^verbatim>\<open>progressStopCh\<close>, is not a field of the model.\<close>

record FileTaskProgress =
  State :: ProgressState
  TaskID_fp :: string
  PeerID_fp :: string
  ContentLength_fp :: int64
  CompletedLength :: int64
  PeerTaskDone :: bool

record conductorView =
  GetTaskID :: string
  GetPeerID :: string
  GetContentLength :: int64
  GetTotalPieces :: int32
  completedLength :: int64
  failedCode :: Code
  failedReason :: string

record ('c, 'x) fileTask =
  ctx :: 'x
  peerTaskConductor :: 'c
  request :: FileTaskRequest
  disableBackSource :: bool
  pattern :: string
  callsystem :: string

subsection \<open>Creating a file task\<close>

text \<open>
  What \<^verbatim>\<open>newFileTask\<close> does besides returning: the counter of file tasks, the goroutine
  started for the prefetch, the span started, the subscription to the broker.
\<close>

datatype 'c fileEffect =
  FileTaskCountAdd | SpawnPrefetch PeerTaskRequest | TracerStart | BrokerSubscribe 'c

text \<open>
  \<^verbatim>\<open>getPeerTaskConductor\<close> and \<^verbatim>\<open>idgen.TaskID\<close> are declared in other files and are
  parameters, as is \<^verbatim>\<open>tracer.Start\<close>, which derives the context of the task. The result is
  Go's triple: context, task and error, \<open>None\<close> for \<^verbatim>\<open>nil\<close>.
\<close>

record ('c, 'x) peerTaskManager =
  enablePrefetch :: bool
  getPeerTaskConductor :: "'x \<Rightarrow> string \<Rightarrow> PeerTaskRequest \<Rightarrow> real \<Rightarrow> error + 'c"
  idgen_TaskID :: "string \<Rightarrow> UrlMeta \<Rightarrow> string"
  tracer_Start :: "'x \<Rightarrow> 'x"

definition newFileTask :: "('c, 'x) peerTaskManager \<Rightarrow> 'x \<Rightarrow> FileTaskRequest \<Rightarrow> real \<Rightarrow>
    ('x option \<times> ('c, 'x) fileTask option \<times> error option) \<times> 'c fileEffect list" where
  "newFileTask ptm ctx0 req limit =
     (case getPeerTaskConductor ptm ctx0 (idgen_TaskID ptm (Url req) (UrlMeta req))
             (PeerTaskRequest.truncate req) limit of
        Inl err \<Rightarrow> ((None, None, Some err), [FileTaskCountAdd])
      | Inr ptc \<Rightarrow>
          (let prefetch = (if enablePrefetch ptm \<and> Range (UrlMeta req) \<noteq> []
                           then [SpawnPrefetch (PeerTaskRequest.truncate req)] else []);
               ctx1 = tracer_Start ptm ctx0;
               pt = \<lparr>ctx = ctx1, peerTaskConductor = ptc, request = req,
                     disableBackSource = DisableBackSource req,
                     pattern = Pattern req, callsystem = Callsystem req\<rparr>
           in ((Some ctx1, Some pt, None),
               [FileTaskCountAdd] @ prefetch @ [TracerStart, BrokerSubscribe ptc])))"

text \<open>The requests for which a prefetch was started.\<close>

fun prefetches :: "'c fileEffect list \<Rightarrow> PeerTaskRequest list" where
  "prefetches [] = []"
| "prefetches (SpawnPrefetch r # es) = r # prefetches es"
| "prefetches (e # es) = prefetches es"

subsection \<open>Reporting progress\<close>

text \<open>
  \<^verbatim>\<open>syncProgress\<close> runs in a goroutine and waits in \<^verbatim>\<open>select\<close> statements. The model is
  driven by the list of what happens at each point where the goroutine waits: which
  case of the \<^verbatim>\<open>select\<close> is taken, and what \<^verbatim>\<open>Store\<close> of the storage manager returns. The
  result is the list of progress events that a receiver took from \<^verbatim>\<open>progressCh\<close>, and
  where the goroutine is when the list is used up.
\<close>

datatype choice =
  SuccessCh | FailCh | CtxDone | PieceCh bool | ProgressStop | ProgressSent
  | StoreResult "string option"

datatype outcome = Returned | AtLoop | AtPieceSend | AtStore | AtFinalSend | AtStop | NotOffered

definition progressOf :: "conductorView \<Rightarrow> bool \<Rightarrow> Code \<Rightarrow> string \<Rightarrow> bool \<Rightarrow> FileTaskProgress" where
  "progressOf c success code msg done =
     \<lparr>State = \<lparr>Success = success, Code = code, Msg = msg\<rparr>,
      TaskID_fp = GetTaskID c, PeerID_fp = GetPeerID c,
      ContentLength_fp = GetContentLength c, CompletedLength = completedLength c,
      PeerTaskDone = done\<rparr>"

text \<open>
  The two \<^verbatim>\<open>select\<close> statements shared by \<^verbatim>\<open>sendSuccessProgress\<close> and \<^verbatim>\<open>sendFailProgress\<close>:
  the progress is sent or the context is done; then the progress is stopped or the
  context is done.
\<close>

fun waitStopped :: "choice list \<Rightarrow> outcome" where
  "waitStopped [] = AtStop"
| "waitStopped (ProgressStop # cs) = Returned"
| "waitStopped (CtxDone # cs) = Returned"
| "waitStopped (x # cs) = NotOffered"

fun sendFinal :: "FileTaskProgress \<Rightarrow> choice list \<Rightarrow> FileTaskProgress list \<times> outcome" where
  "sendFinal pg [] = ([], AtFinalSend)"
| "sendFinal pg (ProgressSent # cs) = ([pg], waitStopped cs)"
| "sendFinal pg (CtxDone # cs) = ([], waitStopped cs)"
| "sendFinal pg (x # cs) = ([], NotOffered)"

definition sendSuccessProgress :: "conductorView \<Rightarrow> choice list \<Rightarrow> FileTaskProgress list \<times> outcome" where
  "sendSuccessProgress c cs = sendFinal (progressOf c True Code_Success ''done'' True) cs"

definition sendFailProgress :: "conductorView \<Rightarrow> Code \<Rightarrow> string \<Rightarrow> choice list \<Rightarrow>
    FileTaskProgress list \<times> outcome" where
  "sendFailProgress c code msg cs = sendFinal (progressOf c False code msg True) cs"

fun storeToOutput :: "conductorView \<Rightarrow> choice list \<Rightarrow> FileTaskProgress list \<times> outcome" where
  "storeToOutput c [] = ([], AtStore)"
| "storeToOutput c (StoreResult (Some err) # cs) = sendFailProgress c Code_ClientError err cs"
| "storeToOutput c (StoreResult None # cs) = sendSuccessProgress c cs"
| "storeToOutput c (x # cs) = ([], NotOffered)"

fun syncProgress :: "conductorView \<Rightarrow> choice list \<Rightarrow> FileTaskProgress list \<times> outcome" where
  "syncProgress c [] = ([], AtLoop)"
| "syncProgress c (SuccessCh # cs) = storeToOutput c cs"
| "syncProgress c (FailCh # cs) = sendFailProgress c (failedCode c) (failedReason c) cs"
| "syncProgress c (CtxDone # cs) = syncProgress c cs"
| "syncProgress c (PieceCh True # cs) = syncProgress c cs"
| "syncProgress c [PieceCh False] = ([], AtPieceSend)"
| "syncProgress c (PieceCh False # ProgressStop # cs) = syncProgress c cs"
| "syncProgress c (PieceCh False # ProgressSent # cs) =
     (case syncProgress c cs of
        (pgs, r) \<Rightarrow> (progressOf c True Code_Success ''downloading'' False # pgs, r))"
| "syncProgress c (PieceCh False # CtxDone # cs) = ([], Returned)"
| "syncProgress c (PieceCh False # x # cs) = ([], NotOffered)"
| "syncProgress c (x # cs) = ([], NotOffered)"

subsection \<open>Concrete file tasks\<close>

definition exFileReq :: FileTaskRequest where
  "exFileReq = \<lparr>Url = ''http://h/f'',
     UrlMeta = \<lparr>Digest = [], Tag = [], Range = ''0-9'', Filter = [], Header = []\<rparr>,
     PeerId = ''p'', IsMigrating = False, Output = ''/o'', Limit_ft = 0,
     DisableBackSource = False, Pattern = ''p2p'', Callsystem = []\<rparr>"

text \<open>A manager with prefetch enabled whose conductor is found, and one for which
  \<^verbatim>\<open>getPeerTaskConductor\<close> fails.\<close>

definition exPtm :: "(nat, nat) peerTaskManager" where
  "exPtm = \<lparr>enablePrefetch = True,
     getPeerTaskConductor = (\<lambda>c tid r l. Inr 7),
     idgen_TaskID = (\<lambda>u m. u),
     tracer_Start = (\<lambda>c. Suc c)\<rparr>"

definition exPtmFail :: "(nat, nat) peerTaskManager" where
  "exPtmFail = exPtm\<lparr>getPeerTaskConductor := (\<lambda>c tid r l. Inl (ErrOS ''register''))\<rparr>"

definition exConductor :: conductorView where
  "exConductor = \<lparr>GetTaskID = ''t'', GetPeerID = ''p'', GetContentLength = 100, GetTotalPieces = 4,
     completedLength = 25, failedCode = Code_Other 4001, failedReason = ''piece failed''\<rparr>"

section \<open>Reloading the persistent tasks\<close>



text \<open>
  The calls of the removal loop and the removals of empty task directories, with what
  they returned, in program order.
\<close>

datatype fscall =
  Remove string "error option" | Lstat string "error + bool" | Readlink string "error + string"










subsection \<open>Notions used in the statement\<close>









text \<open>The paths that the calls have found missing or have removed.\<close>

definition goneBy :: "fscall list \<Rightarrow> string set" where
  "goneBy calls = {p. Remove p None \<in> set calls \<or> (\<exists>err. Lstat p (Inl err) \<in> set calls)}"

subsection \<open>A small file system\<close>

















subsection \<open>What the loops of the reload leave\<close>





section \<open>Properties\<close>

subsection \<open>Operations on a missing key\<close>

lemma LoadTask_None: "tasks_Load (tasks s) k = None \<Longrightarrow> LoadTask s now k = (Keep s now, None)"
  by (simp add: LoadTask_def)

text \<open>
  C9. An operation addressed by a key under which no store is registered returns
  \<^verbatim>\<open>ErrTaskNotFound\<close> with zero, \<^verbatim>\<open>nil\<close> or \<^verbatim>\<open>false\<close> results; the only change to the manager
  is the keep-alive instant set by \<^verbatim>\<open>LoadTask\<close>, so the task map, the index and the stores
  are as before.
\<close>

theorem task_not_found:
  "(tasks_Load (tasks s) (keyOf wp) = None \<longrightarrow>
      WritePiece drv s now wp = (Keep s now, 0, Some ErrTaskNotFound))
   \<and> (tasks_Load (tasks s) (keyOf rp) = None \<longrightarrow>
      ReadPiece drv s now rp = (Keep s now, None, None, Some ErrTaskNotFound))
   \<and> (tasks_Load (tasks s) (keyOf ra) = None \<longrightarrow>
      ReadAllPieces drv s now ra = (Keep s now, None, Some ErrTaskNotFound))
   \<and> (tasks_Load (tasks s) (keyOf sr) = None \<longrightarrow>
      Store drv s now sr = (Keep s now, Some ErrTaskNotFound))
   \<and> (tasks_Load (tasks s) \<lparr>PeerID = DstPid gp, TaskID = TaskId gp\<rparr> = None \<longrightarrow>
      GetPieces drv s now gp = (Keep s now, None, Some ErrTaskNotFound))
   \<and> (tasks_Load (tasks s) (keyOf ur) = None \<longrightarrow>
      UpdateTask drv s now ur = (Keep s now, Some ErrTaskNotFound))
   \<and> (tasks_Load (tasks s) (keyOf vd) = None \<longrightarrow>
      ValidateDigest drv s now vd = (Keep s now, Some ErrTaskNotFound))
   \<and> (tasks_Load (tasks s) (keyOf iv) = None \<longrightarrow>
      IsInvalid drv s now iv = (Keep s now, False, Some ErrTaskNotFound))
   \<and> tasks (Keep s now) = tasks s
   \<and> indexTask2PeerTask (Keep s now) = indexTask2PeerTask s
   \<and> stores (Keep s now) = stores s"
  by (simp add: WritePiece_def ReadPiece_def ReadAllPieces_def Store_def GetPieces_def
      UpdateTask_def ValidateDigest_def IsInvalid_def LoadTask_None Keep_def)

theorem task_not_found_witness:
  "WritePiece exDriver exEmpty 7 (exKey ''p'' ''t'') = (Keep exEmpty 7, 0, Some ErrTaskNotFound)
   \<and> ReadPiece exDriver exEmpty 7 (exKey ''p'' ''t'') = (Keep exEmpty 7, None, None, Some ErrTaskNotFound)
   \<and> ReadAllPieces exDriver exEmpty 7 (exKey ''p'' ''t'') = (Keep exEmpty 7, None, Some ErrTaskNotFound)
   \<and> Store exDriver exEmpty 7 \<lparr>PeerID = ''p'', TaskID = ''t'', Destination_sr = ''/o'', MetadataOnly = False, TotalPieces_sr = 1\<rparr>
        = (Keep exEmpty 7, Some ErrTaskNotFound)
   \<and> GetPieces exDriver exEmpty 7 \<lparr>TaskId = ''t'', SrcPid = ''q'', DstPid = ''p'', StartNum = 0, Limit = 4\<rparr>
        = (Keep exEmpty 7, None, Some ErrTaskNotFound)
   \<and> UpdateTask exDriver exEmpty 7 (exKey ''p'' ''t'') = (Keep exEmpty 7, Some ErrTaskNotFound)
   \<and> ValidateDigest exDriver exEmpty 7 (exKey ''p'' ''t'') = (Keep exEmpty 7, Some ErrTaskNotFound)
   \<and> IsInvalid exDriver exEmpty 7 (exKey ''p'' ''t'') = (Keep exEmpty 7, False, Some ErrTaskNotFound)
   \<and> tasks (Keep exEmpty 7) = tasks exEmpty
   \<and> indexTask2PeerTask (Keep exEmpty 7) = indexTask2PeerTask exEmpty"
proof -
  have h: "tasks_Load (tasks exEmpty) k = None" for k
    by (simp add: exEmpty_def tasks_Load_def)
  show ?thesis
    using task_not_found [where s = exEmpty and drv = exDriver and now = 7
      and wp = "exKey ''p'' ''t''" and rp = "exKey ''p'' ''t''" and ra = "exKey ''p'' ''t''"
      and sr = "\<lparr>PeerID = ''p'', TaskID = ''t'', Destination_sr = ''/o'', MetadataOnly = False, TotalPieces_sr = 1\<rparr>"
      and gp = "\<lparr>TaskId = ''t'', SrcPid = ''q'', DstPid = ''p'', StartNum = 0, Limit = 4\<rparr>"
      and ur = "exKey ''p'' ''t''" and vd = "exKey ''p'' ''t''" and iv = "exKey ''p'' ''t''"]
    unfolding h by blast
qed

subsection \<open>The fast path\<close>

lemma sameButAccess_refl: "sameButAccess h h"
  by (simp add: sameButAccess_def)

lemma sameButAccess_touch:
  "sameButAccess h h0 \<Longrightarrow> sameButAccess (h(a := touch now (h a))) h0"
  by (simp add: sameButAccess_def touch_def)

lemma sameButAccess_fields:
  assumes "sameButAccess h h0"
  shows "invalid (h a) = invalid (h0 a)" and "reclaimMarked (h a) = reclaimMarked (h0 a)"
    and "Done (h a) = Done (h0 a)" and "PeerID_pm (h a) = PeerID_pm (h0 a)"
    and "ContentLength (h a) = ContentLength (h0 a)" and "TotalPieces (h a) = TotalPieces (h0 a)"
proof -
  have e: "(h a)\<lparr>lastAccess := 0\<rparr> = (h0 a)\<lparr>lastAccess := 0\<rparr>"
    using assms by (simp add: sameButAccess_def)
  show "invalid (h a) = invalid (h0 a)" using arg_cong [OF e, of invalid] by simp
  show "reclaimMarked (h a) = reclaimMarked (h0 a)" using arg_cong [OF e, of reclaimMarked] by simp
  show "Done (h a) = Done (h0 a)" using arg_cong [OF e, of Done] by simp
  show "PeerID_pm (h a) = PeerID_pm (h0 a)" using arg_cong [OF e, of PeerID_pm] by simp
  show "ContentLength (h a) = ContentLength (h0 a)" using arg_cong [OF e, of ContentLength] by simp
  show "TotalPieces (h a) = TotalPieces (h0 a)" using arg_cong [OF e, of TotalPieces] by simp
qed

lemma reusable_same: "sameButAccess h h0 \<Longrightarrow> reusable (h a) = reusable (h0 a)"
  by (simp add: reusable_def sameButAccess_fields)

lemma reuseOf_same: "sameButAccess h h0 \<Longrightarrow> reuseOf taskID (h a) = reuseOf taskID (h0 a)"
  by (simp add: reuseOf_def sameButAccess_fields)

lemma findCompleted_result:
  "sameButAccess h h0 \<Longrightarrow>
   snd (findCompleted now taskID h ts) =
     map_option (\<lambda>a. reuseOf taskID (h0 a)) (find (\<lambda>a. reusable (h0 a)) ts)"
proof (induction ts arbitrary: h)
  case Nil
  then show ?case by simp
next
  case (Cons a ts)
  let ?h1 = "h(a := touch now (h a))"
  have s1: "sameButAccess ?h1 h0" using Cons.prems by (rule sameButAccess_touch)
  have f: "invalid (h a) = invalid (h0 a)" "reclaimMarked (touch now (h a)) = reclaimMarked (h0 a)"
    "Done (touch now (h a)) = Done (h0 a)"
    using sameButAccess_fields [OF Cons.prems, of a] sameButAccess_fields [OF s1, of a] by simp_all
  show ?case
  proof (cases "reusable (h0 a)")
    case True
    then show ?thesis
      using f reuseOf_same [OF s1, of taskID a]
      by (simp add: reusable_def reuseOf_def Let_def)
  next
    case False
    then show ?thesis
      using False [unfolded reusable_def]
      by (auto simp add: Let_def f Cons.IH [OF Cons.prems] Cons.IH [OF s1])
  qed
qed

lemma findCompleted_same: "sameButAccess h h0 \<Longrightarrow> sameButAccess (fst (findCompleted now taskID h ts)) h0"
proof (induction ts arbitrary: h)
  case Nil
  then show ?case by simp
next
  case (Cons a ts)
  have s1: "sameButAccess (h(a := touch now (h a))) h0" using Cons.prems by (rule sameButAccess_touch)
  show ?case
    by (simp add: Let_def Cons.IH [OF Cons.prems] Cons.IH [OF s1] s1)
qed

lemma findCompleted_keeps_now:
  "lastAccess (h b) = now \<Longrightarrow> lastAccess (fst (findCompleted now taskID h ts) b) = now"
  by (induction ts arbitrary: h) (simp_all add: Let_def touch_def)

lemma findCompleted_touches:
  "sameButAccess h h0 \<Longrightarrow> find (\<lambda>a. reusable (h0 a)) ts = Some b \<Longrightarrow>
   lastAccess (fst (findCompleted now taskID h ts) b) = now"
proof (induction ts arbitrary: h)
  case Nil
  then show ?case by simp
next
  case (Cons a ts)
  let ?h1 = "h(a := touch now (h a))"
  have s1: "sameButAccess ?h1 h0" using Cons.prems(1) by (rule sameButAccess_touch)
  have f: "invalid (h a) = invalid (h0 a)" "reclaimMarked (touch now (h a)) = reclaimMarked (h0 a)"
    "Done (touch now (h a)) = Done (h0 a)"
    using sameButAccess_fields [OF Cons.prems(1), of a] sameButAccess_fields [OF s1, of a] by simp_all
  show ?case
  proof (cases "reusable (h0 a)")
    case True
    then have "b = a" using Cons.prems(2) by simp
    then show ?thesis using True f by (simp add: reusable_def Let_def touch_def)
  next
    case False
    then have r: "find (\<lambda>a. reusable (h0 a)) ts = Some b" using Cons.prems(2) by simp
    show ?thesis
      using False [unfolded reusable_def]
      by (auto simp add: Let_def f Cons.IH [OF Cons.prems(1) r] Cons.IH [OF s1 r])
  qed
qed

text \<open>
  C4. \<^verbatim>\<open>FindCompletedTask\<close> returns \<^verbatim>\<open>nil\<close> when the task is not indexed or no store of
  its list is reusable; otherwise it returns the \<^verbatim>\<open>ReusePeerTask\<close> built from the first
  store of the list that is not invalid, not marked for reclaim and done, and that
  store's last-access time is the current instant afterwards.
\<close>

theorem FindCompletedTask_first_reusable:
  "(case indexTask2PeerTask s taskID of
      None \<Rightarrow> snd (FindCompletedTask s now taskID) = None
    | Some ts \<Rightarrow>
        (case find (\<lambda>a. reusable (stores s a)) ts of
           None \<Rightarrow> snd (FindCompletedTask s now taskID) = None
         | Some a \<Rightarrow>
             snd (FindCompletedTask s now taskID) = Some (reuseOf taskID (stores s a))
             \<and> lastAccess (stores (fst (FindCompletedTask s now taskID)) a) = now))"
proof (cases "indexTask2PeerTask s taskID")
  case None
  then show ?thesis by (simp add: FindCompletedTask_def)
next
  case (Some ts)
  have r: "snd (findCompleted now taskID (stores s) ts) =
      map_option (\<lambda>a. reuseOf taskID (stores s a)) (find (\<lambda>a. reusable (stores s a)) ts)"
    by (rule findCompleted_result [OF sameButAccess_refl])
  have t: "\<And>a. find (\<lambda>a. reusable (stores s a)) ts = Some a \<Longrightarrow>
      lastAccess (fst (findCompleted now taskID (stores s) ts) a) = now"
    by (rule findCompleted_touches [OF sameButAccess_refl])
  show ?thesis
    by (simp add: FindCompletedTask_def Some split_beta r t split: option.split)
qed

theorem FindCompletedTask_first_reusable_witness:
  "snd (FindCompletedTask exIndexed 50 ''t'') = Some (reuseOf ''t'' (exStore ''t'' ''p2'' 30 7 True False))
   \<and> lastAccess (stores (fst (FindCompletedTask exIndexed 50 ''t'')) 12) = 50"
proof -
  have ix: "indexTask2PeerTask exIndexed ''t'' = Some [10, 11, 12]"
    by (simp add: exIndexed_def exEmpty_def)
  have st: "stores exIndexed 10 = exStore ''t'' ''p0'' 10 0 True True"
    "stores exIndexed 11 = exStore ''t'' ''p1'' 20 5 False False"
    "stores exIndexed 12 = exStore ''t'' ''p2'' 30 7 True False"
    by (simp_all add: exIndexed_def exEmpty_def)
  have f: "find (\<lambda>a. reusable (stores exIndexed a)) [10, 11, 12] = Some 12"
    by (simp add: st reusable_def exStore_def)
  show ?thesis
    using FindCompletedTask_first_reusable [of exIndexed 50 "''t''", unfolded ix option.simps f]
    by (simp add: st)
qed

subsection \<open>Creating a store\<close>

lemma createDataFile_Simple:
  "StoreStrategy t = SimpleLocalTaskStoreStrategy \<Longrightarrow>
   createDataFile os s req t data =
     (case os_OpenFile os data of
        Some err \<Rightarrow> (Inl err, [OpenFile data])
      | None \<Rightarrow> (Inr (t\<lparr>DataFilePath := data\<rparr>), [OpenFile data]))"
  by (simp add: createDataFile_def Let_def split: option.split)

lemma createDataFile_Other:
  "StoreStrategy t = OtherStoreStrategy x \<Longrightarrow> createDataFile os s req t data = (Inr t, [])"
  by (simp add: createDataFile_def)

lemma createDataFile_not_Advance:
  "StoreStrategy t \<noteq> AdvanceLocalTaskStoreStrategy \<Longrightarrow> createDataFile os s req t data = (r, calls) \<Longrightarrow>
   (\<forall>c \<in> set calls. \<not> advanceCall c) \<and> (\<forall>t'. r = Inr t' \<longrightarrow> StoreStrategy t' = StoreStrategy t)"
  by (cases "StoreStrategy t")
     (auto simp add: createDataFile_Simple createDataFile_Other advanceCall_def split: option.splits)

lemma createDataFile_strategy:
  "createDataFile os s req t data = (Inr t', calls) \<Longrightarrow> StoreStrategy t' = StoreStrategy t"
  by (cases "StoreStrategy t")
     (auto simp add: createDataFile_def Let_def split: option.splits sum.splits if_splits prod.splits)


lemma createDataFile_advance_calls:
  "createDataFile os s req t data = (r, calls) \<Longrightarrow> c \<in> set calls \<Longrightarrow> advanceCall c \<Longrightarrow>
   StoreStrategy t = AdvanceLocalTaskStoreStrategy"
  using createDataFile_not_Advance by blast

lemma touch_fields:
  "metadataFilePath (touch now t) = metadataFilePath t"
  "dataDir (touch now t) = dataDir t"
  "StoreStrategy (touch now t) = StoreStrategy t"
  "lastAccess (touch now t) = now"
  by (simp_all add: touch_def)

lemma createTaskFiles_meta_fails:
  "os_OpenFile os (metadataFilePath t) = Some err \<Longrightarrow>
   createTaskFiles os s now req t = (Inl err, [OpenFile (metadataFilePath t)])"
  by (simp add: createTaskFiles_def touch_fields)

lemma createTaskFiles_empty_destination:
  "os_OpenFile os (metadataFilePath t) = None \<Longrightarrow> Destination req = [] \<Longrightarrow>
   createTaskFiles os s now req t =
     (case os_OpenFile os (path_Join os [dataDir t, taskData]) of
        Some err \<Rightarrow> (Inl err, [OpenFile (metadataFilePath t), OpenFile (path_Join os [dataDir t, taskData])])
      | None \<Rightarrow> (Inr ((touch now t)\<lparr>StoreStrategy := SimpleLocalTaskStoreStrategy,
                                   DataFilePath := path_Join os [dataDir t, taskData]\<rparr>),
                 [OpenFile (metadataFilePath t), OpenFile (path_Join os [dataDir t, taskData])]))"
  by (simp add: createTaskFiles_def touch_fields createDataFile_Simple split: option.split)

lemma createTaskFiles_with_destination:
  "os_OpenFile os (metadataFilePath t) = None \<Longrightarrow> Destination req \<noteq> [] \<Longrightarrow>
   createTaskFiles os s now req t =
     (case createDataFile os s req (touch now t) (path_Join os [dataDir t, taskData]) of
        (r, calls) \<Rightarrow> (r, OpenFile (metadataFilePath t) # calls))"
  by (simp add: createTaskFiles_def touch_fields)

lemma createTaskFiles_strategy:
  assumes "createTaskFiles os s now req t = (r, calls)"
  shows "(Destination req = [] \<longrightarrow>
            set calls \<subseteq> {OpenFile (metadataFilePath t), OpenFile (path_Join os [dataDir t, taskData])}
            \<and> (\<forall>t'. r = Inr t' \<longrightarrow> StoreStrategy t' = SimpleLocalTaskStoreStrategy
                  \<and> DataFilePath t' = path_Join os [dataDir t, taskData]
                  \<and> OpenFile (DataFilePath t') \<in> set calls))
       \<and> ((\<exists>c \<in> set calls. advanceCall c) \<or> (\<exists>t'. r = Inr t' \<and> StoreStrategy t' = AdvanceLocalTaskStoreStrategy)
            \<longrightarrow> Destination req \<noteq> [] \<and> StoreStrategy t = AdvanceLocalTaskStoreStrategy)"
proof (cases "os_OpenFile os (metadataFilePath t)")
  case (Some err)
  have "r = Inl err" "calls = [OpenFile (metadataFilePath t)]"
    using assms by (simp_all add: createTaskFiles_meta_fails [OF Some])
  then show ?thesis by (simp add: advanceCall_def)
next
  case None
  let ?data = "path_Join os [dataDir t, taskData]"
  show ?thesis
  proof (cases "Destination req = []")
    case True
    show ?thesis
    proof (cases "os_OpenFile os ?data")
      case (Some err)
      have "r = Inl err" "calls = [OpenFile (metadataFilePath t), OpenFile ?data]"
        using assms by (simp_all add: createTaskFiles_empty_destination [OF None True] Some)
      then show ?thesis by (simp add: advanceCall_def)
    next
      case n: None
      have "r = Inr ((touch now t)\<lparr>StoreStrategy := SimpleLocalTaskStoreStrategy, DataFilePath := ?data\<rparr>)"
        "calls = [OpenFile (metadataFilePath t), OpenFile ?data]"
        using assms by (simp_all add: createTaskFiles_empty_destination [OF None True] n)
      then show ?thesis by (simp add: advanceCall_def)
    qed
  next
    case False
    obtain r0 calls0 where c0: "createDataFile os s req (touch now t) ?data = (r0, calls0)"
      by (cases "createDataFile os s req (touch now t) ?data")
    have rc: "r = r0" "calls = OpenFile (metadataFilePath t) # calls0"
      using assms by (simp_all add: createTaskFiles_with_destination [OF None False] c0)
    have b: "c \<in> set calls0 \<Longrightarrow> advanceCall c \<Longrightarrow> StoreStrategy t = AdvanceLocalTaskStoreStrategy" for c
      using createDataFile_advance_calls [OF c0, of c] by (simp add: touch_fields)
    have d: "r0 = Inr t' \<Longrightarrow> StoreStrategy t' = StoreStrategy t" for t'
      using createDataFile_strategy [of os s req "touch now t" ?data t' calls0] c0
      by (simp add: touch_fields)
    have m: "\<not> advanceCall (OpenFile (metadataFilePath t))" by (simp add: advanceCall_def)
    have "StoreStrategy t = AdvanceLocalTaskStoreStrategy"
      if "(\<exists>c \<in> set calls. advanceCall c) \<or> (\<exists>t'. r = Inr t' \<and> StoreStrategy t' = AdvanceLocalTaskStoreStrategy)"
      using that
    proof
      assume "\<exists>c \<in> set calls. advanceCall c"
      then obtain c where "c \<in> set calls" "advanceCall c" by blast
      then have "c \<in> set calls0" using rc(2) m by auto
      then show ?thesis using b \<open>advanceCall c\<close> by blast
    next
      assume "\<exists>t'. r = Inr t' \<and> StoreStrategy t' = AdvanceLocalTaskStoreStrategy"
      then obtain t' where "r0 = Inr t'" "StoreStrategy t' = AdvanceLocalTaskStoreStrategy"
        using rc(1) by blast
      then show ?thesis using d by metis
    qed
    then show ?thesis using False by blast
  qed
qed



lemma newLocalTaskStore_fields:
  "dataDir (newLocalTaskStore os s req) = path_Join os [DataPath s, TaskID req, PeerID req]"
  "metadataFilePath (newLocalTaskStore os s req) =
     path_Join os [path_Join os [DataPath s, TaskID req, PeerID req], taskMetadata]"
  "StoreStrategy (newLocalTaskStore os s req) = storeStrategy s"
  by (simp_all add: newLocalTaskStore_def Let_def)

lemma Keep_fields:
  "DataPath (Keep s now) = DataPath s" "storeStrategy (Keep s now) = storeStrategy s"
  "tasks (Keep s now) = tasks s" "indexTask2PeerTask (Keep s now) = indexTask2PeerTask s"
  "stores (Keep s now) = stores s" "nextAddr (Keep s now) = nextAddr s"
  "Keep (Keep s now) now2 = Keep s now2"
  by (simp_all add: Keep_def)

lemma registerStore_fields:
  "registerStore s key t = (s', a) \<Longrightarrow>
     a = nextAddr s \<and> stores s' a = t \<and> nextAddr s' = Suc (nextAddr s)
     \<and> tasks s' = tasks_Store (tasks s) key a
     \<and> indexTask2PeerTask s' = indexAppend (indexTask2PeerTask s) (TaskID key) a
     \<and> (\<forall>b. b \<noteq> a \<longrightarrow> stores s' b = stores s b)"
  by (auto simp add: registerStore_def Let_def)

text \<open>The three ways out of \<^verbatim>\<open>CreateTask\<close>.\<close>

lemma CreateTask_outcome:
  assumes "CreateTask os s now req = (s', r, calls)"
  shows "(\<exists>err. mkdirFailure os (dataDir (newLocalTaskStore os (Keep s now) req)) = Some err
            \<and> s' = Keep s now \<and> r = Inl err \<and> calls = [MkdirAll (dataDir (newLocalTaskStore os (Keep s now) req))])
       \<or> (\<exists>err calls0. createTaskFiles os (Keep s now) now req (newLocalTaskStore os (Keep s now) req) = (Inl err, calls0)
            \<and> s' = Keep s now \<and> r = Inl err
            \<and> calls = MkdirAll (dataDir (newLocalTaskStore os (Keep s now) req)) # calls0)
       \<or> (\<exists>t1 calls0 a. createTaskFiles os (Keep s now) now req (newLocalTaskStore os (Keep s now) req) = (Inr t1, calls0)
            \<and> registerStore (Keep s now) \<lparr>PeerID = PeerID req, TaskID = TaskID req\<rparr> t1 = (s', a)
            \<and> r = Inr a
            \<and> calls = MkdirAll (dataDir (newLocalTaskStore os (Keep s now) req)) # calls0)"
  using assms
  by (auto simp add: CreateTask_def Let_def split: option.splits prod.splits sum.splits)


text \<open>
  C10. When the destination of the request is empty, \<^verbatim>\<open>CreateTask\<close> makes no call besides
  \<^verbatim>\<open>MkdirAll\<close> of the data directory and \<^verbatim>\<open>OpenFile\<close> of the metadata and data files in it,
  and a store it returns has the simple strategy and its data file at
  \<^verbatim>\<open>dataRoot/TaskID/PeerID/data\<close>, whatever strategy the manager was configured with. A call
  of \<^verbatim>\<open>Stat\<close>, \<^verbatim>\<open>Link\<close> or \<^verbatim>\<open>Symlink\<close>, or a returned store with the advance strategy, occurs
  only when the destination is not empty (and the manager is configured with the advance
  strategy).
\<close>

theorem CreateTask_empty_destination_simple:
  assumes "CreateTask os s now req = (s', r, calls)"
  shows "(Destination req = [] \<longrightarrow>
            set calls \<subseteq> {MkdirAll (path_Join os [DataPath s, TaskID req, PeerID req]),
                           OpenFile (path_Join os [path_Join os [DataPath s, TaskID req, PeerID req], taskMetadata]),
                           OpenFile (path_Join os [path_Join os [DataPath s, TaskID req, PeerID req], taskData])}
            \<and> (\<forall>a. r = Inr a \<longrightarrow>
                  StoreStrategy (stores s' a) = SimpleLocalTaskStoreStrategy
                  \<and> DataFilePath (stores s' a) =
                      path_Join os [path_Join os [DataPath s, TaskID req, PeerID req], taskData]
                  \<and> OpenFile (DataFilePath (stores s' a)) \<in> set calls))
       \<and> ((\<exists>c \<in> set calls. advanceCall c)
            \<or> (\<exists>a. r = Inr a \<and> StoreStrategy (stores s' a) = AdvanceLocalTaskStoreStrategy)
            \<longrightarrow> Destination req \<noteq> [] \<and> storeStrategy s = AdvanceLocalTaskStoreStrategy)"
proof -
  let ?t = "newLocalTaskStore os (Keep s now) req"
  let ?dd = "path_Join os [DataPath s, TaskID req, PeerID req]"
  have dd: "dataDir ?t = ?dd" "metadataFilePath ?t = path_Join os [?dd, taskMetadata]"
    "StoreStrategy ?t = storeStrategy s"
    by (simp_all add: newLocalTaskStore_fields Keep_fields)
  have mk: "\<not> advanceCall (MkdirAll p)" for p by (simp add: advanceCall_def)
  from CreateTask_outcome [OF assms]
  consider (mkdir) err where "r = Inl err" "calls = [MkdirAll ?dd]"
    | (files) err calls0 where "createTaskFiles os (Keep s now) now req ?t = (Inl err, calls0)"
        "r = Inl err" "calls = MkdirAll ?dd # calls0"
    | (ok) t1 calls0 a where "createTaskFiles os (Keep s now) now req ?t = (Inr t1, calls0)"
        "registerStore (Keep s now) \<lparr>PeerID = PeerID req, TaskID = TaskID req\<rparr> t1 = (s', a)"
        "r = Inr a" "calls = MkdirAll ?dd # calls0"
    unfolding dd by blast
  then show ?thesis
  proof cases
    case mkdir
    then show ?thesis by (simp add: mk)
  next
    case files
    show ?thesis
      using createTaskFiles_strategy [OF files(1)] files(2,3) mk
      unfolding dd by auto
  next
    case ok
    have st: "stores s' a = t1" using registerStore_fields [OF ok(2)] by blast
    show ?thesis
      using createTaskFiles_strategy [OF ok(1)] ok(3,4) mk st
      unfolding dd by auto
  qed
qed

theorem CreateTask_empty_destination_simple_witness:
  "CreateTask exOS exEmpty 5 (exReq []) =
     (fst (CreateTask exOS exEmpty 5 (exReq [])), Inr 0,
      [MkdirAll ''/d/t/p'', OpenFile ''/d/t/p/metadata'', OpenFile ''/d/t/p/data''])
   \<and> storeStrategy exEmpty = AdvanceLocalTaskStoreStrategy
   \<and> StoreStrategy (stores (fst (CreateTask exOS exEmpty 5 (exReq []))) 0) = SimpleLocalTaskStoreStrategy
   \<and> DataFilePath (stores (fst (CreateTask exOS exEmpty 5 (exReq []))) 0) = ''/d/t/p/data''
   \<and> CreateTask exOS exEmpty 5 (exReq ''/out/f'') =
     (fst (CreateTask exOS exEmpty 5 (exReq ''/out/f'')), Inr 0,
      [MkdirAll ''/d/t/p'', OpenFile ''/d/t/p/metadata'', Stat ''/out/'',
       OpenFile ''/out//.f.dfget.cache.p'', Link ''/out//.f.dfget.cache.p'' ''/d/t/p/data''])
   \<and> Destination (exReq ''/out/f'') \<noteq> []"
proof -
  have c1: "CreateTask exOS exEmpty 5 (exReq []) =
     (fst (CreateTask exOS exEmpty 5 (exReq [])), Inr 0,
      [MkdirAll ''/d/t/p'', OpenFile ''/d/t/p/metadata'', OpenFile ''/d/t/p/data''])"
    by (simp add: CreateTask_def newLocalTaskStore_def mkdirFailure_def createTaskFiles_def
        createDataFile_def registerStore_def Keep_def touch_def exOS_def exEmpty_def exReq_def
        path_Join_def taskMetadata_def taskData_def Let_def)
  have c2: "CreateTask exOS exEmpty 5 (exReq ''/out/f'') =
     (fst (CreateTask exOS exEmpty 5 (exReq ''/out/f'')), Inr 0,
      [MkdirAll ''/d/t/p'', OpenFile ''/d/t/p/metadata'', Stat ''/out/'',
       OpenFile ''/out//.f.dfget.cache.p'', Link ''/out//.f.dfget.cache.p'' ''/d/t/p/data''])"
    by (simp add: CreateTask_def newLocalTaskStore_def mkdirFailure_def createTaskFiles_def
        createDataFile_def registerStore_def Keep_def touch_def exOS_def exEmpty_def exReq_def
        path_Join_def path_Split_def taskMetadata_def taskData_def Let_def)
  have d: "Destination (exReq []) = []" "DataPath exEmpty = ''/d''"
    "TaskID (exReq []) = ''t''" "PeerID (exReq []) = ''p''"
    "storeStrategy exEmpty = AdvanceLocalTaskStoreStrategy"
    "Destination (exReq ''/out/f'') \<noteq> []"
    by (simp_all add: exReq_def exEmpty_def)
  have j: "path_Join exOS [''/d'', ''t'', ''p''] = ''/d/t/p''"
    "path_Join exOS [''/d/t/p'', taskData] = ''/d/t/p/data''"
    by (simp_all add: path_Join_def exOS_def taskData_def)
  show ?thesis
    using CreateTask_empty_destination_simple [OF c1] CreateTask_empty_destination_simple [OF c2] c1 c2
    by (simp add: d j advanceCall_def)
qed


subsection \<open>Registering a task\<close>

lemma tasks_Store_absent: "tasks_Load m k = None \<Longrightarrow> tasks_Store m k a = m @ [(k, a)]"
  by (simp add: tasks_Load_def tasks_Store_def map_of_eq_None_iff)

lemma tasks_Load_appended: "tasks_Load m k = None \<Longrightarrow> tasks_Load (m @ [(k, a)]) k = Some a"
  by (simp add: tasks_Load_def map_add_def)

lemma LoadTask_Some: "tasks_Load (tasks s) k = Some a \<Longrightarrow> LoadTask s now k = (Keep s now, Some a)"
  by (simp add: LoadTask_def)

lemma RegisterTask_present:
  "tasks_Load (tasks s) \<lparr>PeerID = PeerID req, TaskID = TaskID req\<rparr> = Some a \<Longrightarrow>
   RegisterTask os s now req = (Keep s now, Inr a, [])"
  by (simp add: RegisterTask_def LoadTask_Some)

lemma RegisterTask_absent:
  "tasks_Load (tasks s) \<lparr>PeerID = PeerID req, TaskID = TaskID req\<rparr> = None \<Longrightarrow>
   RegisterTask os s now req = CreateTask os (Keep s now) now req"
  by (simp add: RegisterTask_def LoadTask_None Keep_fields)

lemma createDataFile_failed:
  "createDataFile os s req t data = (r, calls) \<Longrightarrow> isl r = (\<exists>c \<in> set calls. failedCall os c)"
  by (cases "StoreStrategy t")
     (auto simp add: createDataFile_def Let_def split: option.splits sum.splits if_splits prod.splits)

lemma createTaskFiles_failed:
  "createTaskFiles os s now req t = (r, calls) \<Longrightarrow> isl r = (\<exists>c \<in> set calls. failedCall os c)"
proof -
  assume a: "createTaskFiles os s now req t = (r, calls)"
  show ?thesis
  proof (cases "os_OpenFile os (metadataFilePath t)")
    case (Some err)
    then show ?thesis using a by (auto simp add: createTaskFiles_meta_fails)
  next
    case None
    let ?t2 = "if Destination req = [] then (touch now t)\<lparr>StoreStrategy := SimpleLocalTaskStoreStrategy\<rparr>
               else touch now t"
    obtain r0 calls0 where
      c0: "createDataFile os s req ?t2 (path_Join os [dataDir ?t2, taskData]) = (r0, calls0)"
      by (cases "createDataFile os s req ?t2 (path_Join os [dataDir ?t2, taskData])")
    have rc: "r = r0" "calls = OpenFile (metadataFilePath t) # calls0"
      using a None c0 by (simp_all add: createTaskFiles_def touch_fields Let_def)
    show ?thesis
      unfolding rc using createDataFile_failed [OF c0] None by simp
  qed
qed

lemma CreateTask_failed:
  assumes "CreateTask os s now req = (s', r, calls)"
  shows "isl r = (\<exists>c \<in> set calls. failedCall os c)"
proof -
  let ?t = "newLocalTaskStore os (Keep s now) req"
  show ?thesis
  proof (cases "mkdirFailure os (dataDir ?t)")
    case (Some err)
    then show ?thesis using assms by (auto simp add: CreateTask_def Let_def)
  next
    case None
    obtain r0 calls0 where c0: "createTaskFiles os (Keep s now) now req ?t = (r0, calls0)"
      by (cases "createTaskFiles os (Keep s now) now req ?t")
    have rc: "isl r = isl r0" "calls = MkdirAll (dataDir ?t) # calls0"
      using assms None c0 by (auto simp add: CreateTask_def Let_def split: sum.splits prod.splits)
    show ?thesis
      unfolding rc using createTaskFiles_failed [OF c0] None by simp
  qed
qed

text \<open>
  C3 (amended). If a store is registered under the key of the request, \<^verbatim>\<open>RegisterTask\<close>
  returns it and creates nothing. Otherwise it returns an error exactly when one of the
  calls it made to the operating system failed (\<^verbatim>\<open>MkdirAll\<close> other than with "exists",
  \<^verbatim>\<open>OpenFile\<close>, \<^verbatim>\<open>Stat\<close>, \<^verbatim>\<open>Symlink\<close>), and then it registers nothing; when none of them
  failed -- as when no call can fail -- it creates one store at the next free address,
  stores it under the key and appends it to the index of the task, leaving the other
  stores as they are, and a repeated call with the same request returns that store.
\<close>

theorem RegisterTask_idempotent:
  "(case tasks_Load (tasks s) \<lparr>PeerID = PeerID req, TaskID = TaskID req\<rparr> of
      Some a \<Rightarrow> RegisterTask os s now req = (Keep s now, Inr a, [])
    | None \<Rightarrow>
        (case RegisterTask os s now req of
           (s', Inl err, calls) \<Rightarrow> s' = Keep s now \<and> (\<exists>c \<in> set calls. failedCall os c)
         | (s', Inr a, calls) \<Rightarrow>
             (\<forall>c \<in> set calls. \<not> failedCall os c)
             \<and> a = nextAddr s \<and> nextAddr s' = Suc (nextAddr s)
             \<and> tasks s' = tasks s @ [(\<lparr>PeerID = PeerID req, TaskID = TaskID req\<rparr>, a)]
             \<and> indexTask2PeerTask s' = indexAppend (indexTask2PeerTask s) (TaskID req) a
             \<and> stores s' = (stores s)(a := stores s' a)
             \<and> RegisterTask os2 s' now2 req = (Keep s' now2, Inr a, []))
        \<and> ((\<forall>c. \<not> failedCall os c) \<longrightarrow> \<not> isl (fst (snd (RegisterTask os s now req)))))"
proof (cases "tasks_Load (tasks s) \<lparr>PeerID = PeerID req, TaskID = TaskID req\<rparr>")
  case (Some a)
  then show ?thesis by (simp add: RegisterTask_present)
next
  case None
  obtain s' r calls where c: "CreateTask os (Keep s now) now req = (s', r, calls)"
    by (cases "CreateTask os (Keep s now) now req")
  have rt: "RegisterTask os s now req = (s', r, calls)"
    using RegisterTask_absent [OF None] c by simp
  have fl: "isl r = (\<exists>c \<in> set calls. failedCall os c)"
    by (rule CreateTask_failed [OF c])
  have ok: "(\<forall>c. \<not> failedCall os c) \<longrightarrow> \<not> isl (fst (snd (RegisterTask os s now req)))"
    unfolding rt using fl by simp
  show ?thesis
  proof (cases r)
    case (Inl err)
    have "s' = Keep s now"
      using CreateTask_outcome [OF c] Inl by (auto simp add: Keep_fields)
    moreover have "\<exists>c \<in> set calls. failedCall os c" using fl Inl by simp
    ultimately show ?thesis using None rt Inl ok by simp
  next
    case (Inr a)
    from CreateTask_outcome [OF c] Inr obtain t1 where
      rs: "registerStore (Keep s now) \<lparr>PeerID = PeerID req, TaskID = TaskID req\<rparr> t1 = (s', a)"
      by (auto simp add: Keep_fields)
    note f = registerStore_fields [OF rs, unfolded Keep_fields]
    have ts: "tasks s' = tasks s @ [(\<lparr>PeerID = PeerID req, TaskID = TaskID req\<rparr>, a)]"
      using f tasks_Store_absent [OF None] by simp
    have ld: "tasks_Load (tasks s') \<lparr>PeerID = PeerID req, TaskID = TaskID req\<rparr> = Some a"
      unfolding ts by (rule tasks_Load_appended [OF None])
    have st: "stores s' = (stores s)(a := stores s' a)"
      using f by auto
    have ix: "indexTask2PeerTask s' = indexAppend (indexTask2PeerTask s) (TaskID req) a"
      using f by simp
    have again: "RegisterTask os2 s' now2 req = (Keep s' now2, Inr a, [])"
      by (rule RegisterTask_present [OF ld])
    have a: "a = nextAddr s" "nextAddr s' = Suc (nextAddr s)" using f by simp_all
    have nf: "\<forall>c \<in> set calls. \<not> failedCall os c" using fl Inr by simp
    show ?thesis
      using None rt Inr a ts ix st again nf ok by simp
  qed
qed

lemma exOS_no_failure: "\<not> failedCall exOS c"
  by (cases c) (simp_all add: exOS_def mkdirFailure_def)

theorem RegisterTask_idempotent_witness:
  "RegisterTask exOS exIndexed 5 exReqP0 = (Keep exIndexed 5, Inr 10, [])
   \<and> fst (snd (RegisterTask exOS exEmpty 5 (exReq []))) = Inr 0
   \<and> tasks (fst (RegisterTask exOS exEmpty 5 (exReq []))) = [(exKey ''p'' ''t'', 0)]
   \<and> RegisterTask exFailOS (fst (RegisterTask exOS exEmpty 5 (exReq []))) 9 (exReq []) =
       (Keep (fst (RegisterTask exOS exEmpty 5 (exReq []))) 9, Inr 0, [])
   \<and> \<not> isl (fst (snd (RegisterTask exOS exEmpty 5 (exReq ''/out/f''))))"
proof -
  have l1: "tasks_Load (tasks exIndexed) \<lparr>PeerID = PeerID exReqP0, TaskID = TaskID exReqP0\<rparr> = Some 10"
    by (simp add: exIndexed_def exEmpty_def exReqP0_def exKey_def tasks_Load_def)
  have l2: "tasks_Load (tasks exEmpty) \<lparr>PeerID = PeerID (exReq d), TaskID = TaskID (exReq d)\<rparr> = None" for d
    by (simp add: exEmpty_def tasks_Load_def)
  have c: "snd (RegisterTask exOS exEmpty 5 (exReq [])) =
     (Inr 0, [MkdirAll ''/d/t/p'', OpenFile ''/d/t/p/metadata'', OpenFile ''/d/t/p/data''])"
    unfolding RegisterTask_absent [OF l2]
    by (simp add: CreateTask_def newLocalTaskStore_def mkdirFailure_def
        createTaskFiles_def createDataFile_def registerStore_def Keep_def touch_def exOS_def
        exEmpty_def exReq_def path_Join_def taskMetadata_def taskData_def Let_def)
  have d: "tasks exEmpty = []" "PeerID (exReq []) = ''p''" "TaskID (exReq []) = ''t''"
    by (simp_all add: exEmpty_def exReq_def)
  have e: "\<not> isl (fst (snd (RegisterTask exOS exEmpty 5 (exReq ''/out/f''))))"
    using RegisterTask_idempotent [where s = exEmpty and req = "exReq ''/out/f''" and os = exOS and now = 5,
        unfolded l2 option.simps] exOS_no_failure
    by simp
  show ?thesis
    using RegisterTask_idempotent [where s = exIndexed and req = exReqP0 and os = exOS and now = 5,
        unfolded l1 option.simps]
      RegisterTask_idempotent [where s = exEmpty and req = "exReq []" and os = exOS and now = 5
        and ?os2.0 = exFailOS and ?now2.0 = 9, unfolded l2 option.simps]
      c e
    by (simp add: split_beta d exKey_def)
qed

text \<open>
  C3 as stated fails when the directory cannot be made: no store is registered under
  the key, and the call creates, registers and indexes nothing.
\<close>

theorem RegisterTask_creates_counterexample:
  "tasks_Load (tasks exEmpty) \<lparr>PeerID = PeerID (exReq []), TaskID = TaskID (exReq [])\<rparr> = None
   \<and> RegisterTask exFailOS exEmpty 5 (exReq []) =
       (Keep exEmpty 5, Inl (ErrOS ''mkdir''), [MkdirAll ''/d/t/p''])
   \<and> tasks (Keep exEmpty 5) = []
   \<and> indexTask2PeerTask (Keep exEmpty 5) ''t'' = None
   \<and> nextAddr (Keep exEmpty 5) = nextAddr exEmpty"
proof -
  have l2: "tasks_Load (tasks exEmpty) \<lparr>PeerID = PeerID (exReq []), TaskID = TaskID (exReq [])\<rparr> = None"
    by (simp add: exEmpty_def tasks_Load_def)
  have c: "CreateTask exFailOS (Keep exEmpty 5) 5 (exReq []) =
      (Keep exEmpty 5, Inl (ErrOS ''mkdir''), [MkdirAll ''/d/t/p''])"
    by (simp add: CreateTask_def newLocalTaskStore_def mkdirFailure_def Keep_def os_IsExist_def
        exFailOS_def exOS_def exEmpty_def exReq_def path_Join_def Let_def)
  have k: "tasks (Keep exEmpty 5) = []" "indexTask2PeerTask (Keep exEmpty 5) ''t'' = None"
    by (simp_all add: Keep_def exEmpty_def)
  show ?thesis
    using l2 c k by (simp add: RegisterTask_absent [OF l2] Keep_fields)
qed

subsection \<open>The passes of the collector\<close>

lemma shrunk_refl: "shrunk s s"
  by (simp add: shrunk_def)

lemma shrunk_trans: "shrunk s s1 \<Longrightarrow> shrunk s1 s2 \<Longrightarrow> shrunk s s2"
  unfolding shrunk_def by blast

lemma tasks_Load_None_iff: "tasks_Load m k = None \<longleftrightarrow> k \<notin> fst ` set m"
  by (simp add: tasks_Load_def map_of_eq_None_iff)

lemma unlinked_shrunk: "unlinked key a s \<Longrightarrow> shrunk s s' \<Longrightarrow> unlinked key a s'"
  unfolding unlinked_def shrunk_def tasks_Load_None_iff by blast

lemma tasks_Delete_set: "set (tasks_Delete m k) = {kv \<in> set m. fst kv \<noteq> k}"
  by (auto simp add: tasks_Delete_def)

lemma tasks_Load_Delete: "tasks_Load (tasks_Delete m k) k = None"
  unfolding tasks_Load_None_iff tasks_Delete_set by auto

lemma cleanIndex_fields:
  "tasks (cleanIndex s tid pid) = tasks s" "stores (cleanIndex s tid pid) = stores s"
  "markedReclaimTasks (cleanIndex s tid pid) = markedReclaimTasks s"
  by (simp_all add: cleanIndex_def split: option.split)

lemma cleanIndex_indexed:
  "indexed (cleanIndex s tid pid) tid' =
     (if tid' = tid then {a \<in> indexed s tid. PeerID_pm (stores s a) \<noteq> pid} else indexed s tid')"
  by (auto simp add: cleanIndex_def indexed_def split: option.split)

lemma indexed_update:
  "indexed (s\<lparr>tasks := m\<rparr>) tid = indexed s tid"
  "indexed (s\<lparr>stores := h\<rparr>) tid = indexed s tid"
  "indexed (s\<lparr>markedReclaimTasks := ks\<rparr>) tid = indexed s tid"
  by (simp_all add: indexed_def)

lemma shrunk_unlink:
  "shrunk s (cleanIndex (s\<lparr>tasks := tasks_Delete (tasks s) key\<rparr>) tid pid)"
  unfolding shrunk_def
  by (auto simp add: cleanIndex_fields cleanIndex_indexed tasks_Delete_set indexed_update)

lemma unlinked_unlink:
  "PeerID_pm (stores s a) = PeerID key \<Longrightarrow>
   unlinked key a (cleanIndex (s\<lparr>tasks := tasks_Delete (tasks s) key\<rparr>) (TaskID key) (PeerID key))"
  by (simp add: unlinked_def cleanIndex_fields cleanIndex_indexed tasks_Load_Delete indexed_update)

lemma consistent_shrunk:
  "consistent s \<Longrightarrow> set (tasks s') \<subseteq> set (tasks s) \<Longrightarrow>
   (\<forall>a. PeerID_pm (stores s' a) = PeerID_pm (stores s a) \<and> TaskID_pm (stores s' a) = TaskID_pm (stores s a)) \<Longrightarrow>
   consistent s'"
  unfolding consistent_def by fastforce

lemma consistent_Load:
  "consistent s \<Longrightarrow> tasks_Load (tasks s) key = Some a \<Longrightarrow>
   PeerID_pm (stores s a) = PeerID key \<and> TaskID_pm (stores s a) = TaskID key"
  unfolding consistent_def tasks_Load_def by (auto dest: map_of_SomeD)

lemma reclaimedUnlinked_snoc:
  "reclaimedUnlinked calls s \<Longrightarrow> shrunk s s2 \<Longrightarrow> unlinked key a s2 \<Longrightarrow>
   reclaimedUnlinked (calls @ [(key, a, s2)]) s2"
  unfolding reclaimedUnlinked_def by (auto intro: unlinked_shrunk)

lemma reclaim_loop_unlinked:
  "consistent s \<Longrightarrow> reclaimedUnlinked calls s \<Longrightarrow>
   reclaimMarkedTasks reclaim keys (s, marked, calls) = (s', marked', calls') \<Longrightarrow>
   reclaimedUnlinked calls' s' \<and> shrunk s s' \<and> stores s' = stores s"
proof (induction keys arbitrary: s marked calls)
  case Nil
  then show ?case by (simp add: shrunk_refl)
next
  case (Cons key keys)
  show ?case
  proof (cases "tasks_Load (tasks s) key")
    case None
    then show ?thesis using Cons by simp
  next
    case (Some a)
    let ?s2 = "cleanIndex (s\<lparr>tasks := tasks_Delete (tasks s) key\<rparr>) (TaskID key) (PeerID key)"
    have ids: "PeerID_pm (stores s a) = PeerID key" "TaskID_pm (stores s a) = TaskID key"
      using consistent_Load [OF Cons.prems(1) Some] by simp_all
    have sh: "shrunk s ?s2" by (rule shrunk_unlink)
    have c2: "consistent ?s2"
      by (rule consistent_shrunk [OF Cons.prems(1)])
         (simp_all add: cleanIndex_fields tasks_Delete_set subset_iff)
    have u2: "reclaimedUnlinked (calls @ [(key, a, ?s2)]) ?s2"
      by (rule reclaimedUnlinked_snoc [OF Cons.prems(2) sh unlinked_unlink [OF ids(1)]])
    obtain m2 where
      step: "reclaimMarkedTasks reclaim keys (?s2, m2, calls @ [(key, a, ?s2)]) = (s', marked', calls')"
      using Cons.prems(3) Some ids by (auto simp add: Let_def split: option.splits)
    have "reclaimedUnlinked calls' s' \<and> shrunk ?s2 s' \<and> stores s' = stores ?s2"
      by (rule Cons.IH [OF c2 u2 step])
    then show ?thesis using sh by (auto intro: shrunk_trans simp add: cleanIndex_fields)
  qed
qed


lemma MarkReclaim_idem: "MarkReclaim (MarkReclaim t) = MarkReclaim t"
  by (simp add: MarkReclaim_def)

lemma sameButMarks_refl: "sameButMarks h h"
  by (simp add: sameButMarks_def)

lemma sameButMarks_mark: "sameButMarks h h0 \<Longrightarrow> sameButMarks (h(a := MarkReclaim (h a))) h0"
  by (simp add: sameButMarks_def MarkReclaim_def)

lemma sameButMarks_fields:
  assumes "sameButMarks h h0"
  shows "PeerID_pm (h a) = PeerID_pm (h0 a)" and "TaskID_pm (h a) = TaskID_pm (h0 a)"
    and "ContentLength (h a) = ContentLength (h0 a)" and "lastAccess (h a) = lastAccess (h0 a)"
    and "Done (h a) = Done (h0 a)" and "expireTime (h a) = expireTime (h0 a)"
proof -
  have e: "(h a)\<lparr>reclaimMarked := False\<rparr> = (h0 a)\<lparr>reclaimMarked := False\<rparr>"
    using assms by (simp add: sameButMarks_def)
  show "PeerID_pm (h a) = PeerID_pm (h0 a)" using arg_cong [OF e, of PeerID_pm] by simp
  show "TaskID_pm (h a) = TaskID_pm (h0 a)" using arg_cong [OF e, of TaskID_pm] by simp
  show "ContentLength (h a) = ContentLength (h0 a)" using arg_cong [OF e, of ContentLength] by simp
  show "lastAccess (h a) = lastAccess (h0 a)" using arg_cong [OF e, of lastAccess] by simp
  show "Done (h a) = Done (h0 a)" using arg_cong [OF e, of Done] by simp
  show "expireTime (h a) = expireTime (h0 a)" using arg_cong [OF e, of expireTime] by simp
qed

lemma CanReclaim_same: "sameButMarks h h0 \<Longrightarrow> CanReclaim now (h a) = CanReclaim now (h0 a)"
  by (simp add: CanReclaim_def sameButMarks_fields)

lemma markAll_Nil: "markAll [] h = h"
  by (simp add: markAll_def)

lemma markAll_Cons: "markAll (a # as) h = markAll as (h(a := MarkReclaim (h a)))"
  by (auto simp add: markAll_def MarkReclaim_idem fun_eq_iff)

lemma markAll_append: "markAll (as @ bs) h = markAll bs (markAll as h)"
  by (auto simp add: markAll_def MarkReclaim_idem fun_eq_iff)

lemma sameButMarks_markAll: "sameButMarks (markAll as h) h"
  by (simp add: sameButMarks_def markAll_def MarkReclaim_def)

lemma sameButMarks_sym: "sameButMarks h h0 \<Longrightarrow> sameButMarks h0 h"
  by (simp add: sameButMarks_def)

lemma sameButMarks_trans: "sameButMarks h h1 \<Longrightarrow> sameButMarks h1 h0 \<Longrightarrow> sameButMarks h h0"
  by (simp add: sameButMarks_def)

text \<open>The first range of the pass.\<close>

lemma markExpired_eq:
  "sameButMarks h h0 \<Longrightarrow>
   markExpired now kvs (h, marked, tot) =
     (markAll (map snd (filter (\<lambda>(key, a). CanReclaim now (h0 a)) kvs)) h,
      marked @ map fst (filter (\<lambda>(key, a). CanReclaim now (h0 a)) kvs),
      tot + sum_list (map (\<lambda>(key, a). ContentLength (h0 a))
                (filter (\<lambda>(key, a). \<not> CanReclaim now (h0 a)) kvs)))"
proof (induction kvs arbitrary: h marked tot)
  case Nil
  then show ?case by (simp add: markAll_Nil)
next
  case (Cons kv kvs)
  obtain key a where kv: "kv = (key, a)" by (cases kv)
  show ?case
  proof (cases "CanReclaim now (h0 a)")
    case True
    have s1: "sameButMarks (h(a := MarkReclaim (h a))) h0"
      using Cons.prems by (rule sameButMarks_mark)
    have "markExpired now (kv # kvs) (h, marked, tot) =
        markExpired now kvs (h(a := MarkReclaim (h a)), marked @ [key], tot)"
      using True CanReclaim_same [OF Cons.prems, of now a] by (simp add: kv)
    then show ?thesis
      unfolding Cons.IH [OF s1] using True by (simp add: kv markAll_Cons)
  next
    case False
    show ?thesis
      using False CanReclaim_same [OF Cons.prems, of now a]
      by (simp add: kv Cons.IH [OF Cons.prems] sameButMarks_fields [OF Cons.prems] add.assoc)
  qed
qed

text \<open>The marking loop of the quota branch.\<close>

lemma markOldest_step:
  assumes "sameButMarks h h0"
  shows "markOldest (a # as) (h, marked, bytes) =
      (if bytes - ContentLength (h0 a) \<le>s 0
       then (h(a := MarkReclaim (h a)),
             marked @ [\<lparr>PeerID = PeerID_pm (h0 a), TaskID = TaskID_pm (h0 a)\<rparr>],
             bytes - ContentLength (h0 a))
       else markOldest as (h(a := MarkReclaim (h a)),
             marked @ [\<lparr>PeerID = PeerID_pm (h0 a), TaskID = TaskID_pm (h0 a)\<rparr>],
             bytes - ContentLength (h0 a)))"
proof -
  have s1: "sameButMarks (h(a := MarkReclaim (h a))) h0"
    using assms by (rule sameButMarks_mark)
  have f: "PeerID_pm (MarkReclaim (h a)) = PeerID_pm (h0 a)"
    "TaskID_pm (MarkReclaim (h a)) = TaskID_pm (h0 a)"
    "ContentLength (MarkReclaim (h a)) = ContentLength (h0 a)"
    using sameButMarks_fields [OF s1, of a] by simp_all
  show ?thesis by (simp add: Let_def f)
qed

lemma markOldest_stores:
  "sameButMarks h h0 \<Longrightarrow>
   fst (markOldest as (h, marked, bytes)) = markAll (markUntil (\<lambda>a. ContentLength (h0 a)) bytes as) h"
proof (induction as arbitrary: h marked bytes)
  case Nil
  then show ?case by (simp add: markAll_Nil)
next
  case (Cons a as)
  have s1: "sameButMarks (h(a := MarkReclaim (h a))) h0"
    using Cons.prems by (rule sameButMarks_mark)
  show ?case
    unfolding markOldest_step [OF Cons.prems]
    by (auto simp add: Cons.IH [OF s1] markAll_def fun_eq_iff MarkReclaim_idem)
qed

lemma markOldest_keys:
  "sameButMarks h h0 \<Longrightarrow>
   fst (snd (markOldest as (h, marked, bytes))) =
     marked @ map (\<lambda>a. \<lparr>PeerID = PeerID_pm (h0 a), TaskID = TaskID_pm (h0 a)\<rparr>)
                (markUntil (\<lambda>a. ContentLength (h0 a)) bytes as)"
proof (induction as arbitrary: h marked bytes)
  case Nil
  then show ?case by simp
next
  case (Cons a as)
  have s1: "sameButMarks (h(a := MarkReclaim (h a))) h0"
    using Cons.prems by (rule sameButMarks_mark)
  show ?case
    unfolding markOldest_step [OF Cons.prems]
    by (simp add: Cons.IH [OF s1])
qed


text \<open>The quota branch.\<close>

lemma markExpired_pass:
  "markExpired now (tasks s) (stores s, [], 0) =
     (markAll (map snd (expired s now)) (stores s), map fst (expired s now), totalNotMarkedSize s now)"
  by (simp add: markExpired_eq [OF sameButMarks_refl] expired_def totalNotMarkedSize_def)

lemma expired_marked:
  "(key, a) \<in> set (tasks s) \<Longrightarrow>
   reclaimMarked (markAll (map snd (expired s now)) (stores s) a) =
     (reclaimMarked (stores s a) \<or> CanReclaim now (stores s a))"
  by (force simp add: markAll_def expired_def MarkReclaim_def)

lemma gcCandidates_expired:
  "gcCandidates s now (markAll (map snd (expired s now)) (stores s)) = quotaCandidates s now"
proof -
  let ?h = "markAll (map snd (expired s now)) (stores s)"
  have sm: "sameButMarks ?h (stores s)" by (rule sameButMarks_markAll)
  have "filter (\<lambda>(key, a). \<not> reclaimMarked (?h a)
            \<and> \<not> (\<not> Done (?h a) \<and> now - lastAccess (?h a) < gcInterval s)) (tasks s) =
        filter (\<lambda>(key, a). \<not> reclaimMarked (stores s a) \<and> \<not> CanReclaim now (stores s a)
            \<and> \<not> (\<not> Done (stores s a) \<and> now - lastAccess (stores s a) < gcInterval s)) (tasks s)"
    by (rule filter_cong [OF refl])
       (auto simp add: expired_marked sameButMarks_fields [OF sm])
  then show ?thesis by (simp add: gcCandidates_def quotaCandidates_def)
qed

lemma markQuota_pass:
  "markQuota s now usage (markExpired now (tasks s) (stores s, [], 0)) =
     (markAll (map snd (expired s now) @ quotaVictims s now usage) (stores s),
      map fst (expired s now) @
      map (\<lambda>a. \<lparr>PeerID = PeerID_pm (stores s a), TaskID = TaskID_pm (stores s a)\<rparr>)
        (quotaVictims s now usage))"
proof -
  let ?h = "markAll (map snd (expired s now)) (stores s)"
  have sm: "sameButMarks ?h (stores s)" by (rule sameButMarks_markAll)
  have la: "(\<lambda>a. lastAccess (?h a)) = (\<lambda>a. lastAccess (stores s a))"
    by (simp add: fun_eq_iff sameButMarks_fields [OF sm])
  have srt: "sort_key (\<lambda>a. lastAccess (?h a)) (gcCandidates s now ?h) = sortedCandidates s now"
    by (simp add: la gcCandidates_expired sortedCandidates_def)
  show ?thesis
  proof (cases "gcTriggered s now usage")
    case True
    obtain ue ub where du: "diskUsageExceed s usage = (ue, ub)" by (cases "diskUsageExceed s usage")
    have trig: "((0 <s DiskGCThreshold s \<and> 0 <s totalNotMarkedSize s now - DiskGCThreshold s) \<or> ue) = True"
      using True by (simp add: gcTriggered_def quotaBytesExceed_def du)
    define b where "b = (if ub <s totalNotMarkedSize s now - DiskGCThreshold s
         then totalNotMarkedSize s now - DiskGCThreshold s else ub)"
    define vs where "vs = markUntil (\<lambda>a. ContentLength (stores s a)) b (sortedCandidates s now)"
    obtain h1 m1 b1 where mo: "markOldest (sortedCandidates s now) (?h, map fst (expired s now), b) = (h1, m1, b1)"
      by (metis prod_cases3)
    have v: "quotaVictims s now usage = vs"
      using True by (simp add: quotaVictims_def bytesToReclaim_def quotaBytesExceed_def du b_def vs_def)
    have h1: "h1 = markAll vs ?h"
      using markOldest_stores [OF sm, of "sortedCandidates s now" "map fst (expired s now)" b]
      unfolding mo vs_def by simp
    have m1: "m1 = map fst (expired s now) @
        map (\<lambda>a. \<lparr>PeerID = PeerID_pm (stores s a), TaskID = TaskID_pm (stores s a)\<rparr>) vs"
      using markOldest_keys [OF sm, of "sortedCandidates s now" "map fst (expired s now)" b]
      unfolding mo vs_def by simp
    have "markQuota s now usage (?h, map fst (expired s now), totalNotMarkedSize s now) = (h1, m1)"
      using mo unfolding b_def by (simp add: markQuota_def Let_def du srt trig)
    then show ?thesis
      by (simp add: markExpired_pass h1 m1 v markAll_append)
  next
    case False
    obtain ue ub where du: "diskUsageExceed s usage = (ue, ub)" by (cases "diskUsageExceed s usage")
    have trig: "((0 <s DiskGCThreshold s \<and> 0 <s totalNotMarkedSize s now - DiskGCThreshold s) \<or> ue) = False"
      using False by (simp add: gcTriggered_def quotaBytesExceed_def du)
    have "markQuota s now usage (?h, map fst (expired s now), totalNotMarkedSize s now) =
        (?h, map fst (expired s now))"
      by (simp add: markQuota_def Let_def du trig)
    then show ?thesis
      using False by (simp add: markExpired_pass quotaVictims_def)
  qed
qed














lemma exStore_fields:
  "ContentLength (exStore tid pid len access done marked) = len"
  "lastAccess (exStore tid pid len access done marked) = access"
  "Done (exStore tid pid len access done marked) = done"
  "reclaimMarked (exStore tid pid len access done marked) = marked"
  "expireTime (exStore tid pid len access done marked) = 100"
  "PeerID_pm (exStore tid pid len access done marked) = pid"
  "TaskID_pm (exStore tid pid len access done marked) = tid"
  "invalid (exStore tid pid len access done marked) = False"
  by (simp_all add: exStore_def)













text \<open>The pass, with its two marking steps summed up.\<close>

lemma TryGC_unfold:
  "TryGC reclaim usage s now =
     (case reclaimMarkedTasks reclaim (markedReclaimTasks s)
             (s\<lparr>stores := markAll (map snd (expired s now) @ quotaVictims s now usage) (stores s)\<rparr>,
              map fst (expired s now) @
              map (\<lambda>a. \<lparr>PeerID = PeerID_pm (stores s a), TaskID = TaskID_pm (stores s a)\<rparr>)
                (quotaVictims s now usage), []) of
        (s1, markedTasks1, calls) \<Rightarrow> (s1\<lparr>markedReclaimTasks := markedTasks1\<rparr>, calls, True, None))"
  by (simp add: TryGC_def markQuota_pass)



lemma exOne_fields:
  "tasks exOne = [(exKey ''p'' ''t'', 10)]"
  "stores exOne 10 = exStore ''t'' ''p'' 30 0 True False"
  "DiskGCThreshold exOne = 0" "DiskGCThresholdPercent exOne = 0" "gcInterval exOne = 60"
  "markedReclaimTasks exOne = []"
  "indexTask2PeerTask exOne ''t'' = Some [10]"
  by (simp_all add: exOne_def exEmpty_def)

lemma not_triggered_without_thresholds:
  "DiskGCThreshold s = 0 \<Longrightarrow> DiskGCThresholdPercent s = 0 \<Longrightarrow> \<not> gcTriggered s now None"
  by (simp add: gcTriggered_def diskUsageExceed_def)

lemma exOne_expired: "expired exOne 1000 = [(exKey ''p'' ''t'', 10)]"
  by (simp add: expired_def exOne_fields exStore_fields CanReclaim_def)

lemma exPass1_eq:
  "exPass1 = exOne\<lparr>stores := markAll [10] (stores exOne), markedReclaimTasks := [exKey ''p'' ''t'']\<rparr>"
proof -
  have v: "quotaVictims exOne 1000 None = []"
    using not_triggered_without_thresholds [of exOne 1000] by (simp add: quotaVictims_def exOne_fields)
  show ?thesis
    by (simp add: exPass1_def TryGC_unfold v exOne_expired exOne_fields)
qed

lemma exPass1_fields:
  "tasks exPass1 = [(exKey ''p'' ''t'', 10)]"
  "stores exPass1 10 = exStore ''t'' ''p'' 30 0 True True"
  "DiskGCThreshold exPass1 = 0" "DiskGCThresholdPercent exPass1 = 0"
  "markedReclaimTasks exPass1 = [exKey ''p'' ''t'']"
  "indexTask2PeerTask exPass1 ''t'' = Some [10]"
  by (simp_all add: exPass1_eq exOne_fields markAll_def MarkReclaim_def exStore_def)

lemma exTouched_fields:
  "tasks exTouched = [(exKey ''p'' ''t'', 10)]"
  "stores exTouched 10 = exStore ''t'' ''p'' 30 1001 True True"
  "DiskGCThreshold exTouched = 0" "DiskGCThresholdPercent exTouched = 0"
  "markedReclaimTasks exTouched = [exKey ''p'' ''t'']"
  "indexTask2PeerTask exTouched ''t'' = Some [10]"
  by (simp_all add: exTouched_def FindCompletedTask_def exPass1_fields exStore_fields touch_def
      exStore_def)

lemma exTouched_expired: "expired exTouched 1002 = []"
  by (simp add: expired_def exTouched_fields exStore_fields CanReclaim_def)

lemma exPass2_eval:
  "reclaimedStores (fst (snd exPass2)) = [(exKey ''p'' ''t'', 10)]"
  "tasks (fst exPass2) = []"
  "indexTask2PeerTask (fst exPass2) ''t'' = Some []"
proof -
  have v: "quotaVictims exTouched 1002 None = []"
    using not_triggered_without_thresholds [of exTouched 1002]
    by (simp add: quotaVictims_def exTouched_fields)
  have l: "tasks_Load [(exKey ''p'' ''t'', 10)] (exKey ''p'' ''t'') = Some 10"
    by (simp add: tasks_Load_def)
  show "reclaimedStores (fst (snd exPass2)) = [(exKey ''p'' ''t'', 10)]"
    "tasks (fst exPass2) = []"
    "indexTask2PeerTask (fst exPass2) ''t'' = Some []"
    by (simp_all add: exPass2_def TryGC_unfold v exTouched_expired exTouched_fields markAll_Nil l
        Let_def exReclaim_def reclaimedStores_def tasks_Delete_def cleanIndex_def exStore_fields)
qed



lemma unlinked_cong:
  "tasks s' = tasks s \<Longrightarrow> indexTask2PeerTask s' = indexTask2PeerTask s \<Longrightarrow>
   unlinked key a s' = unlinked key a s"
  by (simp add: unlinked_def indexed_def)

lemma reclaimedUnlinked_cong:
  "tasks s' = tasks s \<Longrightarrow> indexTask2PeerTask s' = indexTask2PeerTask s \<Longrightarrow>
   reclaimedUnlinked calls s' = reclaimedUnlinked calls s"
  by (simp add: reclaimedUnlinked_def unlinked_cong [of s' s])

lemma consistent_marks:
  "consistent s \<Longrightarrow> sameButMarks h (stores s) \<Longrightarrow> consistent (s\<lparr>stores := h\<rparr>)"
  using consistent_shrunk [of s "s\<lparr>stores := h\<rparr>"] by (simp add: sameButMarks_fields)

lemma TryGC_unlinked:
  assumes "consistent s"
  shows "reclaimedUnlinked (fst (snd (TryGC reclaim usage s now))) (fst (TryGC reclaim usage s now))"
proof -
  let ?h = "markAll (map snd (expired s now) @ quotaVictims s now usage) (stores s)"
  let ?m = "map fst (expired s now) @
      map (\<lambda>a. \<lparr>PeerID = PeerID_pm (stores s a), TaskID = TaskID_pm (stores s a)\<rparr>)
        (quotaVictims s now usage)"
  define r where "r = reclaimMarkedTasks reclaim (markedReclaimTasks s) (s\<lparr>stores := ?h\<rparr>, ?m, [])"
  obtain s1 m1 calls where r: "r = (s1, m1, calls)"
    by (cases r)
  have loop: "reclaimMarkedTasks reclaim (markedReclaimTasks s) (s\<lparr>stores := ?h\<rparr>, ?m, []) = (s1, m1, calls)"
    using r by (simp add: r_def)
  have t: "TryGC reclaim usage s now = (s1\<lparr>markedReclaimTasks := m1\<rparr>, calls, True, None)"
    unfolding TryGC_unfold loop by simp
  have c: "consistent (s\<lparr>stores := ?h\<rparr>)"
    by (rule consistent_marks [OF assms sameButMarks_markAll])
  have e: "reclaimedUnlinked [] (s\<lparr>stores := ?h\<rparr>)"
    by (simp add: reclaimedUnlinked_def)
  have "reclaimedUnlinked calls s1"
    using reclaim_loop_unlinked [OF c e loop] by simp
  then have "reclaimedUnlinked calls (s1\<lparr>markedReclaimTasks := m1\<rparr>)"
    by (simp add: reclaimedUnlinked_cong [of "s1\<lparr>markedReclaimTasks := m1\<rparr>" s1])
  then show ?thesis unfolding t by simp
qed

lemma forceGC_loop_unlinked:
  "\<forall>(key, a) \<in> set kvs. PeerID_pm (stores s a) = PeerID key \<Longrightarrow> reclaimedUnlinked calls s \<Longrightarrow>
   forceGCRange reclaim kvs (s, calls) = (s', calls') \<Longrightarrow>
   reclaimedUnlinked calls' s'"
proof (induction kvs arbitrary: s calls)
  case Nil
  then show ?case by simp
next
  case (Cons kv kvs)
  obtain meta a where kv: "kv = (meta, a)" by (cases kv)
  let ?s2 = "cleanIndex (s\<lparr>tasks := tasks_Delete (tasks s) meta\<rparr>) (TaskID meta) (PeerID meta)"
  let ?s3 = "?s2\<lparr>stores := (stores ?s2)(a := MarkReclaim (stores ?s2 a))\<rparr>"
  have step: "forceGCRange reclaim kvs (?s3, calls @ [(meta, a, ?s3)]) = (s', calls')"
    using Cons.prems(3) by (simp add: kv Let_def)
  have pid: "PeerID_pm (stores s a) = PeerID meta"
    using Cons.prems(1) by (simp add: kv)
  have u2: "reclaimedUnlinked (calls @ [(meta, a, ?s2)]) ?s2"
    by (rule reclaimedUnlinked_snoc [OF Cons.prems(2) shrunk_unlink unlinked_unlink [OF pid]])
  have eq: "tasks ?s3 = tasks ?s2" "indexTask2PeerTask ?s3 = indexTask2PeerTask ?s2"
    by simp_all
  have u3: "reclaimedUnlinked (calls @ [(meta, a, ?s3)]) ?s3"
    using u2 unlinked_cong [OF eq]
    by (simp add: reclaimedUnlinked_def reclaimedUnlinked_cong [OF eq])
  have ids: "\<forall>(key, b) \<in> set kvs. PeerID_pm (stores ?s3 b) = PeerID key"
    using Cons.prems(1) by (auto simp add: kv cleanIndex_fields MarkReclaim_def)
  show ?case by (rule Cons.IH [OF ids u3 step])
qed

lemma forceGC_unlinked:
  assumes "consistent s"
  shows "reclaimedUnlinked (fst (snd (forceGC reclaim s))) (fst (forceGC reclaim s))"
proof -
  obtain s1 calls where r: "forceGCRange reclaim (tasks s) (s, []) = (s1, calls)"
    by (cases "forceGCRange reclaim (tasks s) (s, [])")
  have ids: "\<forall>(key, a) \<in> set (tasks s). PeerID_pm (stores s a) = PeerID key"
    using assms by (auto simp add: consistent_def)
  have e: "reclaimedUnlinked [] s" by (simp add: reclaimedUnlinked_def)
  have "reclaimedUnlinked calls s1" by (rule forceGC_loop_unlinked [OF ids e r])
  then show ?thesis by (simp add: forceGC_def r)
qed

lemma cleanIndex_frame:
  "nextAddr (cleanIndex s tid pid) = nextAddr s" "DataPath (cleanIndex s tid pid) = DataPath s"
  "storeStrategy (cleanIndex s tid pid) = storeStrategy s"
  "TaskExpireTime (cleanIndex s tid pid) = TaskExpireTime s"
  "dataPathDev (cleanIndex s tid pid) = dataPathDev s"
  by (simp_all add: cleanIndex_def split: option.split)

lemma reclaim_loop_frame:
  "nextAddr (fst (reclaimMarkedTasks reclaim keys (s, marked, calls))) = nextAddr s
   \<and> DataPath (fst (reclaimMarkedTasks reclaim keys (s, marked, calls))) = DataPath s
   \<and> storeStrategy (fst (reclaimMarkedTasks reclaim keys (s, marked, calls))) = storeStrategy s
   \<and> TaskExpireTime (fst (reclaimMarkedTasks reclaim keys (s, marked, calls))) = TaskExpireTime s
   \<and> dataPathDev (fst (reclaimMarkedTasks reclaim keys (s, marked, calls))) = dataPathDev s"
proof (induction keys arbitrary: s marked calls)
  case Nil
  then show ?case by simp
next
  case (Cons key keys)
  show ?case
    by (cases "tasks_Load (tasks s) key")
       (simp_all add: Let_def Cons.IH cleanIndex_frame split: option.split)
qed

lemma TryGC_frame:
  "nextAddr (fst (TryGC reclaim usage s now)) = nextAddr s"
  "DataPath (fst (TryGC reclaim usage s now)) = DataPath s"
  "storeStrategy (fst (TryGC reclaim usage s now)) = storeStrategy s"
  "TaskExpireTime (fst (TryGC reclaim usage s now)) = TaskExpireTime s"
  "dataPathDev (fst (TryGC reclaim usage s now)) = dataPathDev s"
  using reclaim_loop_frame [of reclaim "markedReclaimTasks s"
      "s\<lparr>stores := markAll (map snd (expired s now) @ quotaVictims s now usage) (stores s)\<rparr>"]
  by (simp_all add: TryGC_unfold split_beta)

lemma TryGC_consistent:
  assumes "consistent s"
  shows "consistent (fst (TryGC reclaim usage s now))"
    and "set (tasks (fst (TryGC reclaim usage s now))) \<subseteq> set (tasks s)"
proof -
  let ?h = "markAll (map snd (expired s now) @ quotaVictims s now usage) (stores s)"
  let ?m = "map fst (expired s now) @
      map (\<lambda>a. \<lparr>PeerID = PeerID_pm (stores s a), TaskID = TaskID_pm (stores s a)\<rparr>)
        (quotaVictims s now usage)"
  define r where "r = reclaimMarkedTasks reclaim (markedReclaimTasks s) (s\<lparr>stores := ?h\<rparr>, ?m, [])"
  obtain s1 m1 calls where r: "r = (s1, m1, calls)"
    by (cases r)
  have loop: "reclaimMarkedTasks reclaim (markedReclaimTasks s) (s\<lparr>stores := ?h\<rparr>, ?m, []) = (s1, m1, calls)"
    using r by (simp add: r_def)
  have t: "TryGC reclaim usage s now = (s1\<lparr>markedReclaimTasks := m1\<rparr>, calls, True, None)"
    unfolding TryGC_unfold loop by simp
  have c: "consistent (s\<lparr>stores := ?h\<rparr>)"
    by (rule consistent_marks [OF assms sameButMarks_markAll])
  have e: "reclaimedUnlinked [] (s\<lparr>stores := ?h\<rparr>)"
    by (simp add: reclaimedUnlinked_def)
  have l: "shrunk (s\<lparr>stores := ?h\<rparr>) s1" "stores s1 = ?h"
    using reclaim_loop_unlinked [OF c e loop] by simp_all
  have sub: "set (tasks s1) \<subseteq> set (tasks s)" using l(1) by (simp add: shrunk_def)
  have "consistent (s1\<lparr>markedReclaimTasks := m1\<rparr>)"
    by (rule consistent_shrunk [OF c]) (simp_all add: sub l(2))
  then show "consistent (fst (TryGC reclaim usage s now))" unfolding t by simp
  show "set (tasks (fst (TryGC reclaim usage s now))) \<subseteq> set (tasks s)" unfolding t using sub by simp
qed

lemma forceGC_loop_frame:
  "forceGCRange reclaim kvs (s, calls) = (s', calls') \<Longrightarrow>
   set (tasks s') \<subseteq> set (tasks s) \<and> nextAddr s' = nextAddr s
   \<and> (\<forall>a. PeerID_pm (stores s' a) = PeerID_pm (stores s a) \<and> TaskID_pm (stores s' a) = TaskID_pm (stores s a))"
proof (induction kvs arbitrary: s calls)
  case Nil
  then show ?case by simp
next
  case (Cons kv kvs)
  obtain meta a where kv: "kv = (meta, a)" by (cases kv)
  let ?s2 = "cleanIndex (s\<lparr>tasks := tasks_Delete (tasks s) meta\<rparr>) (TaskID meta) (PeerID meta)"
  let ?s3 = "?s2\<lparr>stores := (stores ?s2)(a := MarkReclaim (stores ?s2 a))\<rparr>"
  have step: "forceGCRange reclaim kvs (?s3, calls @ [(meta, a, ?s3)]) = (s', calls')"
    using Cons.prems by (simp add: kv Let_def)
  have ih: "set (tasks s') \<subseteq> set (tasks ?s3) \<and> nextAddr s' = nextAddr ?s3
   \<and> (\<forall>b. PeerID_pm (stores s' b) = PeerID_pm (stores ?s3 b) \<and> TaskID_pm (stores s' b) = TaskID_pm (stores ?s3 b))"
    by (rule Cons.IH [OF step])
  have t3: "set (tasks ?s3) \<subseteq> set (tasks s)" "nextAddr ?s3 = nextAddr s"
    by (auto simp add: cleanIndex_fields cleanIndex_frame tasks_Delete_set)
  have h3: "PeerID_pm (stores ?s3 b) = PeerID_pm (stores s b) \<and> TaskID_pm (stores ?s3 b) = TaskID_pm (stores s b)" for b
    by (simp add: cleanIndex_fields MarkReclaim_def)
  show ?case using ih t3 h3 by auto
qed

lemma forceGC_consistent:
  assumes "consistent s"
  shows "consistent (fst (forceGC reclaim s))"
    and "set (tasks (fst (forceGC reclaim s))) \<subseteq> set (tasks s)"
    and "nextAddr (fst (forceGC reclaim s)) = nextAddr s"
proof -
  obtain s1 calls where r: "forceGCRange reclaim (tasks s) (s, []) = (s1, calls)"
    by (cases "forceGCRange reclaim (tasks s) (s, [])")
  note f = forceGC_loop_frame [OF r]
  have "consistent s1" by (rule consistent_shrunk [OF assms]) (use f in simp_all)
  then show "consistent (fst (forceGC reclaim s))" by (simp add: forceGC_def r)
  show "set (tasks (fst (forceGC reclaim s))) \<subseteq> set (tasks s)" using f by (simp add: forceGC_def r)
  show "nextAddr (fst (forceGC reclaim s)) = nextAddr s" using f by (simp add: forceGC_def r)
qed

lemma allocated_shrunk:
  "allocated s \<Longrightarrow> set (tasks s') \<subseteq> set (tasks s) \<Longrightarrow> nextAddr s' = nextAddr s \<Longrightarrow> allocated s'"
  unfolding allocated_def by fastforce

lemma createDataFile_ids:
  "createDataFile os s req t data = (Inr t', calls) \<Longrightarrow>
   PeerID_pm t' = PeerID_pm t \<and> TaskID_pm t' = TaskID_pm t"
  by (cases "StoreStrategy t")
     (auto simp add: createDataFile_def Let_def split: option.splits sum.splits if_splits prod.splits)

lemma createTaskFiles_ids:
  "createTaskFiles os s now req t = (Inr t', calls) \<Longrightarrow>
   PeerID_pm t' = PeerID_pm t \<and> TaskID_pm t' = TaskID_pm t"
proof -
  assume a: "createTaskFiles os s now req t = (Inr t', calls)"
  let ?t2 = "if Destination req = [] then (touch now t)\<lparr>StoreStrategy := SimpleLocalTaskStoreStrategy\<rparr>
             else touch now t"
  have n: "os_OpenFile os (metadataFilePath t) = None"
    using a by (cases "os_OpenFile os (metadataFilePath t)") (simp_all add: createTaskFiles_meta_fails)
  obtain r0 calls0 where
    c0: "createDataFile os s req ?t2 (path_Join os [dataDir ?t2, taskData]) = (r0, calls0)"
    by (cases "createDataFile os s req ?t2 (path_Join os [dataDir ?t2, taskData])")
  have "r0 = Inr t'"
    using a n c0 by (simp add: createTaskFiles_def touch_fields Let_def)
  then have "PeerID_pm t' = PeerID_pm ?t2 \<and> TaskID_pm t' = TaskID_pm ?t2"
    using createDataFile_ids c0 by blast
  then show ?thesis by (simp add: touch_def)
qed

lemma consistent_Keep: "consistent (Keep s now) = consistent s" "allocated (Keep s now) = allocated s"
  by (simp_all add: consistent_def allocated_def Keep_def)

lemma tasks_Store_set:
  "set (tasks_Store m k a) \<subseteq> insert (k, a) (set m)"
  by (auto simp add: tasks_Store_def)

lemma registerStore_consistent:
  assumes c: "consistent s" and al: "allocated s"
    and ids: "PeerID_pm t = PeerID key" "TaskID_pm t = TaskID key"
    and rs: "registerStore s key t = (s', a)"
  shows "consistent s' \<and> allocated s'"
proof -
  note f = registerStore_fields [OF rs]
  have fa: "a = nextAddr s" by (rule f [THEN conjunct1])
  have fs: "stores s' a = t" by (rule f [THEN conjunct2, THEN conjunct1])
  have fn: "nextAddr s' = Suc (nextAddr s)" by (rule f [THEN conjunct2, THEN conjunct2, THEN conjunct1])
  have ft: "tasks s' = tasks_Store (tasks s) key a"
    by (rule f [THEN conjunct2, THEN conjunct2, THEN conjunct2, THEN conjunct1])
  have fo: "b \<noteq> a \<Longrightarrow> stores s' b = stores s b" for b
    using f by blast
  have sub: "set (tasks s') \<subseteq> insert (key, a) (set (tasks s))"
    unfolding ft by (rule tasks_Store_set)
  have old: "b < a" if "(k, b) \<in> set (tasks s)" for k b
    using al that unfolding fa allocated_def by fastforce
  have "PeerID_pm (stores s' b) = PeerID k \<and> TaskID_pm (stores s' b) = TaskID k \<and> b < nextAddr s'"
    if m: "(k, b) \<in> set (tasks s')" for k b
  proof (cases "(k, b) = (key, a)")
    case True
    then have "k = key" "b = a" by simp_all
    then show ?thesis using fs ids fn fa by simp
  next
    case False
    then have o: "(k, b) \<in> set (tasks s)" using m sub by auto
    have lt: "b < a" by (rule old [OF o])
    then have "stores s' b = stores s b" using fo [of b] by simp
    moreover have "PeerID_pm (stores s b) = PeerID k \<and> TaskID_pm (stores s b) = TaskID k"
      using c o unfolding consistent_def by fastforce
    ultimately show ?thesis using lt fn fa by simp
  qed
  then show ?thesis unfolding consistent_def allocated_def by fastforce
qed

lemma newLocalTaskStore_ids:
  "PeerID_pm (newLocalTaskStore os s req) = PeerID req" "TaskID_pm (newLocalTaskStore os s req) = TaskID req"
  by (simp_all add: newLocalTaskStore_def Let_def)

lemma CreateTask_consistent:
  assumes c: "consistent s" and al: "allocated s"
  shows "consistent (fst (CreateTask os s now req)) \<and> allocated (fst (CreateTask os s now req))"
proof -
  obtain s' r calls where ct: "CreateTask os s now req = (s', r, calls)"
    by (cases "CreateTask os s now req")
  have k: "consistent (Keep s now)" "allocated (Keep s now)" using c al by (simp_all add: consistent_Keep)
  from CreateTask_outcome [OF ct] have "consistent s' \<and> allocated s'"
  proof (elim disjE exE conjE)
    fix t1 calls0 a
    assume f: "createTaskFiles os (Keep s now) now req (newLocalTaskStore os (Keep s now) req) = (Inr t1, calls0)"
      and rs: "registerStore (Keep s now) \<lparr>PeerID = PeerID req, TaskID = TaskID req\<rparr> t1 = (s', a)"
    have ids: "PeerID_pm t1 = PeerID \<lparr>PeerID = PeerID req, TaskID = TaskID req\<rparr>"
      "TaskID_pm t1 = TaskID \<lparr>PeerID = PeerID req, TaskID = TaskID req\<rparr>"
      using createTaskFiles_ids [OF f] by (simp_all add: newLocalTaskStore_ids)
    show ?thesis by (rule registerStore_consistent [OF k ids rs])
  qed (use k in simp_all)
  then show ?thesis by (simp add: ct)
qed

lemma RegisterTask_consistent:
  assumes c: "consistent s" and al: "allocated s"
  shows "consistent (fst (RegisterTask os s now req)) \<and> allocated (fst (RegisterTask os s now req))"
proof (cases "tasks_Load (tasks s) \<lparr>PeerID = PeerID req, TaskID = TaskID req\<rparr>")
  case None
  have "consistent (fst (CreateTask os (Keep s now) now req))
      \<and> allocated (fst (CreateTask os (Keep s now) now req))"
    by (rule CreateTask_consistent) (use c al in \<open>simp_all add: consistent_Keep\<close>)
  then show ?thesis by (simp add: RegisterTask_absent [OF None])
next
  case (Some a)
  then show ?thesis using c al by (simp add: RegisterTask_present consistent_Keep)
qed

text \<open>
  C2 (amended). Let the keys of the task map carry the identifiers of their stores, as
  \<^verbatim>\<open>CreateTask\<close> registers them. Then in a pass of \<^verbatim>\<open>TryGC\<close> and in \<^verbatim>\<open>forceGC\<close> every call of
  \<^verbatim>\<open>Reclaim\<close> runs in a state in which the key of the store is no longer in the task map
  and the store is no longer in the slice indexed under its task, and the same holds in
  the state that the pass leaves behind: the pass does not insert them again. The passes
  keep the keys in step with the stores, and so does \<^verbatim>\<open>RegisterTask\<close> when the addresses
  in the task map have been handed out.
\<close>

theorem reclaim_after_unlink:
  assumes "consistent s"
  shows "reclaimedUnlinked (fst (snd (TryGC reclaim usage s now))) (fst (TryGC reclaim usage s now))
       \<and> reclaimedUnlinked (fst (snd (forceGC reclaim s))) (fst (forceGC reclaim s))
       \<and> consistent (fst (TryGC reclaim usage s now))
       \<and> consistent (fst (forceGC reclaim s))
       \<and> (allocated s \<longrightarrow>
            allocated (fst (TryGC reclaim usage s now)) \<and> allocated (fst (forceGC reclaim s))
            \<and> consistent (fst (RegisterTask os s now2 req)) \<and> allocated (fst (RegisterTask os s now2 req)))"
proof -
  have a: "allocated (fst (TryGC reclaim usage s now))" if "allocated s"
    by (rule allocated_shrunk [OF that TryGC_consistent(2) [OF assms] TryGC_frame(1)])
  have b: "allocated (fst (forceGC reclaim s))" if "allocated s"
    by (rule allocated_shrunk [OF that forceGC_consistent(2) [OF assms] forceGC_consistent(3) [OF assms]])
  show ?thesis
    using TryGC_unlinked [OF assms] forceGC_unlinked [OF assms] TryGC_consistent(1) [OF assms]
      forceGC_consistent(1) [OF assms] a b RegisterTask_consistent [OF assms]
    by blast
qed

lemma exTouched_consistent: "consistent exTouched"
  by (simp add: consistent_def exTouched_fields exStore_fields exKey_def)

lemma FindCompletedTask_frame:
  "nextAddr (fst (FindCompletedTask s now taskID)) = nextAddr s"
  "DataPath (fst (FindCompletedTask s now taskID)) = DataPath s"
  "storeStrategy (fst (FindCompletedTask s now taskID)) = storeStrategy s"
  "TaskExpireTime (fst (FindCompletedTask s now taskID)) = TaskExpireTime s"
  by (simp_all add: FindCompletedTask_def split_beta split: option.split)

lemma exTouched_frame:
  "nextAddr exTouched = 11" "DataPath exTouched = ''/d''"
  "storeStrategy exTouched = AdvanceLocalTaskStoreStrategy" "TaskExpireTime exTouched = 100"
  by (simp_all add: exTouched_def exPass1_def FindCompletedTask_frame TryGC_frame exOne_def exEmpty_def)

lemma exTouched_allocated: "allocated exTouched"
  by (simp add: allocated_def exTouched_fields exTouched_frame)

lemma exPass2_frame:
  "nextAddr (fst exPass2) = 11" "DataPath (fst exPass2) = ''/d''"
  "storeStrategy (fst exPass2) = AdvanceLocalTaskStoreStrategy" "TaskExpireTime (fst exPass2) = 100"
  by (simp_all add: exPass2_def TryGC_frame exTouched_frame)

lemma exPass2_register:
  "tasks (fst (RegisterTask exOS (fst exPass2) 1003 (exReq []))) = [(exKey ''p'' ''t'', 11)]"
  "indexTask2PeerTask (fst (RegisterTask exOS (fst exPass2) 1003 (exReq []))) ''t'' = Some [11]"
proof -
  define S where "S = fst exPass2"
  have f: "tasks S = []" "indexTask2PeerTask S ''t'' = Some []" "nextAddr S = 11" "DataPath S = ''/d''"
    "storeStrategy S = AdvanceLocalTaskStoreStrategy" "TaskExpireTime S = 100"
    by (simp_all add: S_def exPass2_eval exPass2_frame)
  have n: "tasks_Load (tasks S) \<lparr>PeerID = PeerID (exReq []), TaskID = TaskID (exReq [])\<rparr> = None"
    by (simp add: f tasks_Load_def)
  have c: "tasks (fst (RegisterTask exOS S 1003 (exReq []))) = [(exKey ''p'' ''t'', 11)]
      \<and> indexTask2PeerTask (fst (RegisterTask exOS S 1003 (exReq []))) ''t'' = Some [11]"
    unfolding RegisterTask_absent [OF n]
    by (simp add: CreateTask_def newLocalTaskStore_def mkdirFailure_def
        createTaskFiles_def createDataFile_def registerStore_def Keep_def touch_def exOS_def
        exReq_def path_Join_def taskMetadata_def taskData_def Let_def f tasks_Store_def
        indexAppend_def exKey_def)
  show "tasks (fst (RegisterTask exOS (fst exPass2) 1003 (exReq []))) = [(exKey ''p'' ''t'', 11)]"
    "indexTask2PeerTask (fst (RegisterTask exOS (fst exPass2) 1003 (exReq []))) ''t'' = Some [11]"
    using c by (simp_all add: S_def)
qed

theorem reclaim_after_unlink_witness:
  "consistent exTouched
   \<and> reclaimedStores (fst (snd exPass2)) = [(exKey ''p'' ''t'', 10)]
   \<and> reclaimedUnlinked (fst (snd exPass2)) (fst exPass2)
   \<and> reclaimedStores (fst (snd (forceGC exReclaim exTouched))) = [(exKey ''p'' ''t'', 10)]
   \<and> reclaimedUnlinked (fst (snd (forceGC exReclaim exTouched))) (fst (forceGC exReclaim exTouched))
   \<and> consistent (fst exPass2)
   \<and> allocated exTouched
   \<and> consistent (fst (RegisterTask exOS exTouched 1003 (exReq ''/out/f'')))"
proof -
  have f: "reclaimedStores (fst (snd (forceGC exReclaim exTouched))) = [(exKey ''p'' ''t'', 10)]"
    by (simp add: forceGC_def exTouched_fields Let_def reclaimedStores_def)
  show ?thesis
    using reclaim_after_unlink [OF exTouched_consistent, where reclaim = exReclaim and usage = None
        and now = 1002 and os = exOS and ?now2.0 = 1003 and req = "exReq ''/out/f''"] f
      exPass2_eval [unfolded exPass2_def] exTouched_allocated
    by (simp add: exTouched_consistent exPass2_def)
qed

text \<open>
  C2 as stated fails in its last part: after the pass at 1002 has reclaimed the store
  of the key, a \<^verbatim>\<open>RegisterTask\<close> for the same task and peer puts the key into the task map
  and a store for it into the index again.
\<close>

theorem reclaim_reinserted_counterexample:
  "reclaimedStores (fst (snd exPass2)) = [(exKey ''p'' ''t'', 10)]
   \<and> tasks (fst exPass2) = []
   \<and> indexTask2PeerTask (fst exPass2) ''t'' = Some []
   \<and> tasks (fst (RegisterTask exOS (fst exPass2) 1003 (exReq []))) = [(exKey ''p'' ''t'', 11)]
   \<and> indexTask2PeerTask (fst (RegisterTask exOS (fst exPass2) 1003 (exReq []))) ''t'' = Some [11]"
  by (simp add: exPass2_eval exPass2_register)

lemma exMismatch_fields:
  "tasks exMismatch = [(exKey ''p'' ''t'', 10)]"
  "stores exMismatch 10 = exStore ''t0'' ''p0'' 30 2000 True True"
  "DiskGCThreshold exMismatch = 0" "DiskGCThresholdPercent exMismatch = 0"
  "markedReclaimTasks exMismatch = [exKey ''p'' ''t'']"
  "indexTask2PeerTask exMismatch ''t'' = Some [10]"
  "indexTask2PeerTask exMismatch ''t0'' = None"
  by (simp_all add: exMismatch_def exEmpty_def)

lemma exMismatch_TryGC:
  "reclaimedStores (fst (snd (TryGC exReclaim None exMismatch 1002))) = [(exKey ''p'' ''t'', 10)]"
  "tasks (fst (TryGC exReclaim None exMismatch 1002)) = []"
  "indexTask2PeerTask (fst (TryGC exReclaim None exMismatch 1002)) ''t'' = Some [10]"
proof -
  have v: "quotaVictims exMismatch 1002 None = []"
    using not_triggered_without_thresholds [of exMismatch 1002]
    by (simp add: quotaVictims_def exMismatch_fields)
  have e: "expired exMismatch 1002 = []"
    by (simp add: expired_def exMismatch_fields exStore_fields CanReclaim_def)
  have l: "tasks_Load [(exKey ''p'' ''t'', 10)] (exKey ''p'' ''t'') = Some 10"
    by (simp add: tasks_Load_def)
  show "reclaimedStores (fst (snd (TryGC exReclaim None exMismatch 1002))) = [(exKey ''p'' ''t'', 10)]"
    "tasks (fst (TryGC exReclaim None exMismatch 1002)) = []"
    "indexTask2PeerTask (fst (TryGC exReclaim None exMismatch 1002)) ''t'' = Some [10]"
    by (simp_all add: TryGC_unfold v e exMismatch_fields markAll_Nil l
        Let_def exReclaim_def reclaimedStores_def tasks_Delete_def cleanIndex_def exStore_fields)
qed

lemma exMismatch_forceGC:
  "reclaimedStores (fst (snd (forceGC exReclaim exMismatch))) = [(exKey ''p'' ''t'', 10)]"
  "tasks (fst (forceGC exReclaim exMismatch)) = []"
  "indexTask2PeerTask (fst (forceGC exReclaim exMismatch)) ''t'' = Some [10]"
  by (simp_all add: forceGC_def exMismatch_fields Let_def reclaimedStores_def tasks_Delete_def
      cleanIndex_def exStore_fields exKey_def)

text \<open>
  Without keys in step with the stores the order is lost: for the store above, both
  passes call \<^verbatim>\<open>Reclaim\<close> and leave the store in the slice indexed under the task of its
  key, \<^verbatim>\<open>TryGC\<close> because it cleans the index under the identifiers of the store,
  \<^verbatim>\<open>forceGC\<close> because \<^verbatim>\<open>cleanIndex\<close> looks for the peer of the key among the stores.
\<close>

lemma reclaim_mismatch_example:
  "\<not> consistent exMismatch
   \<and> reclaimedStores (fst (snd (TryGC exReclaim None exMismatch 1002))) = [(exKey ''p'' ''t'', 10)]
   \<and> indexTask2PeerTask (fst (TryGC exReclaim None exMismatch 1002)) ''t'' = Some [10]
   \<and> reclaimedStores (fst (snd (forceGC exReclaim exMismatch))) = [(exKey ''p'' ''t'', 10)]
   \<and> indexTask2PeerTask (fst (forceGC exReclaim exMismatch)) ''t'' = Some [10]"
  by (simp add: exMismatch_TryGC exMismatch_forceGC consistent_def exMismatch_fields exStore_fields
      exKey_def)

subsection \<open>The file task\<close>

lemma prefetches_append: "prefetches (xs @ ys) = prefetches xs @ prefetches ys"
  by (induction xs rule: prefetches.induct) simp_all

text \<open>
  C8 (amended). \<^verbatim>\<open>newFileTask\<close> starts a prefetch, and exactly one, for the request if and
  only if \<^verbatim>\<open>getPeerTaskConductor\<close> returned no error, prefetch is enabled and the range of the
  request is not empty; the context, task and error it returns are the same whether
  prefetch is enabled or not.
\<close>

theorem newFileTask_prefetch:
  "prefetches (snd (newFileTask ptm ctx0 req limit)) =
     (if \<not> isl (getPeerTaskConductor ptm ctx0 (idgen_TaskID ptm (Url req) (UrlMeta req))
                  (PeerTaskRequest.truncate req) limit)
         \<and> enablePrefetch ptm \<and> Range (UrlMeta req) \<noteq> []
      then [PeerTaskRequest.truncate req] else [])
   \<and> fst (newFileTask (ptm\<lparr>enablePrefetch := b\<rparr>) ctx0 req limit) = fst (newFileTask ptm ctx0 req limit)"
  by (cases "getPeerTaskConductor ptm ctx0 (idgen_TaskID ptm (Url req) (UrlMeta req))
                  (PeerTaskRequest.truncate req) limit")
     (simp_all add: newFileTask_def Let_def)

theorem newFileTask_prefetch_witness:
  "prefetches (snd (newFileTask exPtm 0 exFileReq 0)) = [PeerTaskRequest.truncate exFileReq]
   \<and> prefetches (snd (newFileTask (exPtm\<lparr>enablePrefetch := False\<rparr>) 0 exFileReq 0)) = []
   \<and> fst (newFileTask (exPtm\<lparr>enablePrefetch := False\<rparr>) 0 exFileReq 0) = fst (newFileTask exPtm 0 exFileReq 0)"
  using newFileTask_prefetch [of exPtm 0 exFileReq 0 False]
    newFileTask_prefetch [of "exPtm\<lparr>enablePrefetch := False\<rparr>" 0 exFileReq 0 False]
  by (simp add: exPtm_def exFileReq_def)

text \<open>
  C8 as stated fails when the conductor cannot be obtained: prefetch is enabled and the
  range is not empty, but the function returns the error before any prefetch is started.
\<close>

theorem newFileTask_prefetch_counterexample:
  "enablePrefetch exPtmFail \<and> Range (UrlMeta exFileReq) \<noteq> []
   \<and> newFileTask exPtmFail 0 exFileReq 0 = ((None, None, Some (ErrOS ''register'')), [FileTaskCountAdd])
   \<and> prefetches (snd (newFileTask exPtmFail 0 exFileReq 0)) = []"
  by (simp add: newFileTask_def exPtmFail_def exPtm_def exFileReq_def)

lemma waitStopped_not_loop: "waitStopped cs \<noteq> AtLoop"
  by (induction cs rule: waitStopped.induct) simp_all

lemma sendFinal_not_loop: "snd (sendFinal pg cs) \<noteq> AtLoop"
  by (induction pg cs rule: sendFinal.induct) (simp_all add: waitStopped_not_loop)

lemma storeToOutput_not_loop: "snd (storeToOutput c cs) \<noteq> AtLoop"
  by (induction c cs rule: storeToOutput.induct)
     (simp_all add: sendFailProgress_def sendSuccessProgress_def sendFinal_not_loop)

lemma syncProgress_append:
  "syncProgress c pre = (evs0, AtLoop) \<Longrightarrow>
   syncProgress c (pre @ cs) = (evs0 @ fst (syncProgress c cs), snd (syncProgress c cs))"
proof (induction c pre arbitrary: evs0 rule: syncProgress.induct)
  case (2 c cs')
  then show ?case using storeToOutput_not_loop [of c cs'] by simp
next
  case (3 c cs')
  then show ?case
    using sendFinal_not_loop [of "progressOf c False (failedCode c) (failedReason c) True" cs']
    by (simp add: sendFailProgress_def)
next
  case (8 c cs')
  then show ?case by (auto split: prod.splits)
qed auto

lemma sendFinal_events:
  "fst (sendFinal pg cs) = (case cs of ProgressSent # cs' \<Rightarrow> [pg] | _ \<Rightarrow> [])"
  by (induction pg cs rule: sendFinal.induct) simp_all

text \<open>
  C7 (amended). When the fail channel is taken at the loop of \<^verbatim>\<open>syncProgress\<close>, the events
  emitted from then on are at most one: the terminal progress with \<^verbatim>\<open>PeerTaskDone\<close> true,
  \<^verbatim>\<open>Success\<close> false, the failed code and the failed reason of the conductor, emitted if a
  receiver takes it from the progress channel, and none if the context is done first (or
  nobody receives). Nothing is emitted after it and the goroutine does not come back to
  the loop.
\<close>

theorem syncProgress_fail:
  assumes "syncProgress c pre = (evs0, AtLoop)"
  shows "fst (syncProgress c (pre @ FailCh # cs)) =
           evs0 @ (case cs of
                     ProgressSent # cs' \<Rightarrow> [progressOf c False (failedCode c) (failedReason c) True]
                   | _ \<Rightarrow> [])
       \<and> snd (syncProgress c (pre @ FailCh # cs)) \<noteq> AtLoop
       \<and> PeerTaskDone (progressOf c False (failedCode c) (failedReason c) True)
       \<and> State (progressOf c False (failedCode c) (failedReason c) True) =
           \<lparr>Success = False, Code = failedCode c, Msg = failedReason c\<rparr>"
proof -
  let ?pg = "progressOf c False (failedCode c) (failedReason c) True"
  have r: "syncProgress c (pre @ FailCh # cs) = (evs0 @ fst (sendFinal ?pg cs), snd (sendFinal ?pg cs))"
    using syncProgress_append [OF assms, of "FailCh # cs"] by (simp add: sendFailProgress_def)
  have a: "fst (syncProgress c (pre @ FailCh # cs)) =
      evs0 @ (case cs of ProgressSent # cs' \<Rightarrow> [?pg] | _ \<Rightarrow> [])"
    unfolding r by (simp add: sendFinal_events)
  have b: "snd (syncProgress c (pre @ FailCh # cs)) \<noteq> AtLoop"
    unfolding r using sendFinal_not_loop [of ?pg cs] by simp
  have d: "PeerTaskDone ?pg" "State ?pg = \<lparr>Success = False, Code = failedCode c, Msg = failedReason c\<rparr>"
    by (simp_all add: progressOf_def)
  show ?thesis by (intro conjI a b d)
qed

theorem syncProgress_fail_witness:
  "syncProgress exConductor [PieceCh False, ProgressSent, CtxDone] =
     ([progressOf exConductor True Code_Success ''downloading'' False], AtLoop)
   \<and> fst (syncProgress exConductor ([PieceCh False, ProgressSent, CtxDone] @ [FailCh, ProgressSent, ProgressStop, PieceCh False, ProgressSent])) =
     [progressOf exConductor True Code_Success ''downloading'' False,
      progressOf exConductor False (Code_Other 4001) ''piece failed'' True]"
proof -
  have a: "syncProgress exConductor [PieceCh False, ProgressSent, CtxDone] =
     ([progressOf exConductor True Code_Success ''downloading'' False], AtLoop)"
    by simp
  have f: "failedCode exConductor = Code_Other 4001" "failedReason exConductor = ''piece failed''"
    by (simp_all add: exConductor_def)
  show ?thesis
    using syncProgress_fail [OF a, of "[ProgressSent, ProgressStop, PieceCh False, ProgressSent]"] a
    by (simp add: f)
qed

text \<open>
  C7 as stated fails when the context of the task is done: the fail channel is taken,
  the send of the terminal progress loses against \<^verbatim>\<open>ctx.Done()\<close>, and no event is emitted.
\<close>

theorem syncProgress_fail_counterexample:
  "syncProgress exConductor [FailCh, CtxDone, CtxDone] = ([], Returned)"
  by (simp add: sendFailProgress_def)

subsection \<open>Reload of the persistent tasks\<close>





















subsection \<open>The calls of the removal loop\<close>






subsection \<open>What has been removed stays removed\<close>

lemma goneBy_append: "goneBy (calls @ rest) = goneBy calls \<union> goneBy rest"
  by (auto simp add: goneBy_def)










subsection \<open>The small file system\<close>










end
